theory Spec2Isabelle
  imports Complex_Main "HOL-Library.AList" "HOL-Library.Char_ord" "HOL-Library.List_Lexorder"
begin

section \<open>Benchmark summary script: \<open>scripts/bench_summary.py\<close>\<close>

text \<open>
  The script reads criterion's \<open>estimates.json\<close> records below \<open>target/criterion\<close>,
  turns mean times into throughput and prints one of two reports.

  Conventions of the embedding.
  \<^item> A Python number (an \<open>int\<close>, or a \<open>float\<close> read from JSON) is a rational number.
    In the model of the pipeline arithmetic on it is exact.  The throughput calculation
    is given a second time with the result of every operation rounded to binary64
    (nearest, ties to even, 53 significant bits), to settle what rounding does to it;
    overflow, underflow, infinities and NaN are outside the model.  The one arithmetic
    failure of the script, true division by a zero divisor, is modelled
    (\<open>ZeroDivisionError\<close>).
  \<^item> A string is a list of characters; names are taken to be ASCII, where a character
    is a byte and widths count the same in Python and here.
  \<^item> An exception is a value of \<open>pyerr\<close>; a function that can raise returns \<open>pyerr + 'a\<close>
    with \<open>Inl\<close> for the exception that leaves it.
  \<^item> A Python \<open>dict\<close> is an association list with distinct keys, in insertion order.
  \<^item> The file system is a tree of directories and regular files, every entry of which
    can be read (permissions and symbolic links are outside the model); a file is given
    by what \<open>json.load\<close> does with its content.
  \<^item> Standard output is the list of the strings passed to \<open>print\<close>, one per call.
\<close>

subsection \<open>Exceptions\<close>

datatype pyerr =
    FileNotFoundError
  | NotADirectoryError
  | IsADirectoryError
  | UnicodeDecodeError
  | JSONDecodeError
  | RecursionError
  | ValueError
  | KeyError
  | TypeError
  | ZeroDivisionError
  | OverflowError

subsection \<open>Formatting: \<open>str(int)\<close>, \<open>{s:<w}\<close> and \<open>{x:.df}\<close>\<close>

definition digit_char :: "nat \<Rightarrow> char" where
  "digit_char d = ''0123456789'' ! d"

fun str_nat :: "nat \<Rightarrow> string" where
  "str_nat n = (if n < 10 then [digit_char n] else str_nat (n div 10) @ [digit_char (n mod 10)])"

declare str_nat.simps [simp del]

definition str_int :: "int \<Rightarrow> string" where
  "str_int i = (if i < 0 then ''-'' @ str_nat (nat (- i)) else str_nat (nat i))"

text \<open>\<open>f"{s:<w}"\<close>: left-justify in a field of width \<open>w\<close>; a longer string is kept whole.\<close>

definition ljust :: "nat \<Rightarrow> string \<Rightarrow> string" where
  "ljust w s = s @ replicate (w - length s) CHR '' ''"

definition zfill :: "nat \<Rightarrow> string \<Rightarrow> string" where
  "zfill w s = replicate (w - length s) CHR ''0'' @ s"

text \<open>Rounding to the nearest integer, a tie going to the even neighbour.\<close>

definition round_half_even :: "rat \<Rightarrow> int" where
  "round_half_even x =
     (let f = \<lfloor>x\<rfloor>; r = x - of_int f
      in if r < 1 / 2 then f
         else if 1 / 2 < r then f + 1
         else if even f then f else f + 1)"

text \<open>\<open>f"{x:.df}"\<close>: fixed notation with \<open>d\<close> digits after the point, correctly rounded.\<close>

definition format_f :: "nat \<Rightarrow> rat \<Rightarrow> string" where
  "format_f d x =
     (let n = nat (round_half_even (\<bar>x\<bar> * 10 ^ d))
      in (if x < 0 then ''-'' else '''')
         @ str_nat (n div 10 ^ d)
         @ (if d = 0 then '''' else ''.'' @ zfill d (str_nat (n mod 10 ^ d))))"

subsection \<open>\<open>get_throughput\<close>\<close>

text \<open>
  \<^verbatim>\<open>seconds = mean_ns / 1_000_000_000\<close>,
  \<^verbatim>\<open>mb_per_sec = (size_bytes / seconds) / (1024 * 1024)\<close>; the second division raises
  when \<open>seconds\<close> is zero.
\<close>

definition get_throughput :: "rat \<Rightarrow> int \<Rightarrow> pyerr + rat \<times> string" where
  "get_throughput mean_ns size_bytes =
     (let seconds = mean_ns / 1000000000
      in if seconds = 0 then Inl ZeroDivisionError
         else
           let mb_per_sec = (of_int size_bytes / seconds) / (1024 * 1024)
           in if mb_per_sec \<ge> 1000
              then Inr (mb_per_sec, format_f 2 (mb_per_sec / 1024) @ '' GB/s'')
              else Inr (mb_per_sec, format_f 1 mb_per_sec @ '' MB/s''))"

subsection \<open>Binary floating point\<close>

text \<open>The number of bits of a positive integer; 0 for the others.\<close>

function bit_length :: "int \<Rightarrow> int" where
  "bit_length n = (if n \<le> 0 then 0 else 1 + bit_length (n div 2))"
  by auto
termination
  by (relation "measure nat") auto

declare bit_length.simps [simp del]

definition pow2 :: "int \<Rightarrow> rat" where
  "pow2 e = (if 0 \<le> e then 2 ^ nat e else 1 / 2 ^ nat (- e))"

definition floor_log2 :: "rat \<Rightarrow> int" where
  "floor_log2 y =
     (if 1 \<le> y then bit_length \<lfloor>y\<rfloor> - 1
      else - bit_length (\<lceil>1 / y\<rceil> - 1))"

text \<open>
  The binary64 number nearest to \<open>x\<close>, a tie going to the even significand: \<open>x\<close> is
  scaled by a power of two to a significand in \<open>[2^52, 2^53)\<close>, which is rounded to an
  integer.  The exponent is not bounded.
\<close>

definition binary64 :: "rat \<Rightarrow> rat" where
  "binary64 x =
     (if x = 0 then 0
      else
        let e = floor_log2 \<bar>x\<bar> - 52
        in sgn x * of_int (round_half_even (\<bar>x\<bar> / pow2 e)) * pow2 e)"

text \<open>
  \<open>get_throughput\<close> as a Python \<open>float\<close> computation: the two divisions of line 13, the
  division of line 12 and the division inside the format string each round their result.
\<close>

definition get_throughput_binary64 :: "rat \<Rightarrow> int \<Rightarrow> pyerr + rat \<times> string" where
  "get_throughput_binary64 mean_ns size_bytes =
     (let seconds = binary64 (mean_ns / 1000000000)
      in if seconds = 0 then Inl ZeroDivisionError
         else
           let mb_per_sec = binary64 (binary64 (of_int size_bytes / seconds) / (1024 * 1024))
           in if mb_per_sec \<ge> 1000
              then Inr (mb_per_sec, format_f 2 (binary64 (mb_per_sec / 1024)) @ '' GB/s'')
              else Inr (mb_per_sec, format_f 1 mb_per_sec @ '' MB/s''))"

subsection \<open>JSON values and the file system\<close>

text \<open>
  What \<open>json.load\<close> returns.  A JSON \<open>true\<close>/\<open>false\<close> is a Python \<open>bool\<close>, which
  Python's arithmetic treats as the integer 1 or 0.
\<close>

datatype json =
    JNull
  | JBool bool
  | JNum rat
  | JStr string
  | JArr "json list"
  | JObj "(string \<times> json) list"

text \<open>
  What a regular file holds, by what \<open>json.load\<close> does with it: bytes that are not text in
  the encoding of \<open>open\<close>; text that is not JSON; JSON nested deeper than the interpreter
  recurses; JSON with an integer literal of more than 4300 digits; or JSON that loads, given
  by the value that is returned.
\<close>

datatype content = NotText | NotJson | TooDeep | HugeInt | Json json

datatype node = File content | Dir "(string \<times> node) list"

text \<open>\<open>dir / name\<close> when it exists; nothing exists below a regular file.\<close>

fun child :: "node \<Rightarrow> string \<Rightarrow> node option" where
  "child (Dir entries) name = map_of entries name"
| "child (File c) name = None"

fun is_dir :: "node \<Rightarrow> bool" where
  "is_dir (Dir entries) = True"
| "is_dir (File c) = False"

text \<open>\<open>open(dir / n1 / ... / nk)\<close> for reading, with the error the system call reports.\<close>

fun open_file :: "node \<Rightarrow> string list \<Rightarrow> pyerr + content" where
  "open_file (File c) [] = Inr c"
| "open_file (Dir entries) [] = Inl IsADirectoryError"
| "open_file (File c) (name # names) = Inl NotADirectoryError"
| "open_file (Dir entries) (name # names) =
     (case map_of entries name of
        None \<Rightarrow> Inl FileNotFoundError
      | Some n \<Rightarrow> open_file n names)"

fun json_load :: "content \<Rightarrow> pyerr + json" where
  "json_load NotText = Inl UnicodeDecodeError"
| "json_load NotJson = Inl JSONDecodeError"
| "json_load TooDeep = Inl RecursionError"
| "json_load HugeInt = Inl ValueError"
| "json_load (Json j) = Inr j"

text \<open>\<open>value[key]\<close> with a string key: only a \<open>dict\<close> can be subscripted by a string.\<close>

fun getitem :: "json \<Rightarrow> string \<Rightarrow> pyerr + json" where
  "getitem (JObj kvs) key = (case map_of kvs key of None \<Rightarrow> Inl KeyError | Some v \<Rightarrow> Inr v)"
| "getitem j key = Inl TypeError"

text \<open>The number a value stands for in arithmetic, if any.\<close>

fun as_number :: "json \<Rightarrow> rat option" where
  "as_number (JNum q) = Some q"
| "as_number (JBool b) = Some (if b then 1 else 0)"
| "as_number j = None"

text \<open>\<open>a / b\<close> on two Python values.\<close>

definition py_truediv :: "json \<Rightarrow> json \<Rightarrow> pyerr + rat" where
  "py_truediv a b =
     (case as_number a of
        None \<Rightarrow> Inl TypeError
      | Some x \<Rightarrow>
          (case as_number b of
             None \<Rightarrow> Inl TypeError
           | Some y \<Rightarrow> if y = 0 then Inl ZeroDivisionError else Inr (x / y)))"

subsection \<open>\<open>parse_estimates\<close>\<close>

record estimate =
  mean_ns :: json
  std_dev_ns :: json

text \<open>The body of the \<open>try\<close>: open, load, then the four subscripts in evaluation order.\<close>

definition parse_estimates_try :: "node \<Rightarrow> pyerr + estimate" where
  "parse_estimates_try path =
     (case open_file path [''new'', ''estimates.json''] of
        Inl e \<Rightarrow> Inl e
      | Inr f \<Rightarrow>
     (case json_load f of
        Inl e \<Rightarrow> Inl e
      | Inr data \<Rightarrow>
     (case getitem data ''mean'' of
        Inl e \<Rightarrow> Inl e
      | Inr mean \<Rightarrow>
     (case getitem mean ''point_estimate'' of
        Inl e \<Rightarrow> Inl e
      | Inr m \<Rightarrow>
     (case getitem data ''std_dev'' of
        Inl e \<Rightarrow> Inl e
      | Inr std_dev \<Rightarrow>
     (case getitem std_dev ''point_estimate'' of
        Inl e \<Rightarrow> Inl e
      | Inr sd \<Rightarrow> Inr \<lparr>mean_ns = m, std_dev_ns = sd\<rparr>))))))"

text \<open>\<^verbatim>\<open>except (FileNotFoundError, json.JSONDecodeError, KeyError): return None\<close>\<close>

definition caught :: "pyerr \<Rightarrow> bool" where
  "caught e = (e = FileNotFoundError \<or> e = JSONDecodeError \<or> e = KeyError)"

definition parse_estimates :: "node \<Rightarrow> pyerr + estimate option" where
  "parse_estimates path =
     (case parse_estimates_try path of
        Inr est \<Rightarrow> Inr (Some est)
      | Inl e \<Rightarrow> if caught e then Inr None else Inl e)"

subsection \<open>\<open>summarize_dictionary\<close>\<close>

record tresult = estimate +
  throughput :: string
  throughput_mbps :: rat

type_synonym size_results = "(int \<times> tresult) list"
type_synonym results = "(string \<times> size_results) list"

definition paths :: "string list" where
  "paths = [''Scalar'', ''LUT'', ''Specialized'']"

definition sizes :: "int list" where
  "sizes = [64, 256, 1024, 4096, 16384, 65536]"

text \<open>
  One pass through the body of the inner loop: the entry stored under \<open>size\<close>, if one is.
  A non-empty \<open>dict\<close> is true, so \<open>if estimates\<close> tests for \<open>None\<close>.  \<open>get_throughput\<close>
  raises \<open>TypeError\<close> at its first division when \<open>mean_ns\<close> is not a number.
\<close>

definition size_step :: "node \<Rightarrow> int \<Rightarrow> pyerr + tresult option" where
  "size_step path_dir sz =
     (case child path_dir (str_int sz) of
        None \<Rightarrow> Inr None
      | Some size_dir \<Rightarrow>
          (case parse_estimates size_dir of
             Inl e \<Rightarrow> Inl e
           | Inr None \<Rightarrow> Inr None
           | Inr (Some estimates) \<Rightarrow>
               (case as_number (mean_ns estimates) of
                  None \<Rightarrow> Inl TypeError
                | Some m \<Rightarrow>
                    (case get_throughput m sz of
                       Inl e \<Rightarrow> Inl e
                     | Inr (mb_per_sec, formatted) \<Rightarrow>
                         Inr (Some \<lparr>mean_ns = mean_ns estimates,
                                     std_dev_ns = std_dev_ns estimates,
                                     throughput = formatted,
                                     throughput_mbps = mb_per_sec\<rparr>)))))"

text \<open>The inner loop, \<open>for size in sizes\<close>, with the dictionary \<open>results[path]\<close> built so far.\<close>

fun sizes_loop :: "node \<Rightarrow> int list \<Rightarrow> size_results \<Rightarrow> pyerr + size_results" where
  "sizes_loop path_dir [] acc = Inr acc"
| "sizes_loop path_dir (sz # rest) acc =
     (case size_step path_dir sz of
        Inl e \<Rightarrow> Inl e
      | Inr None \<Rightarrow> sizes_loop path_dir rest acc
      | Inr (Some t) \<Rightarrow> sizes_loop path_dir rest (AList.update sz t acc))"

text \<open>The outer loop, \<open>for path in paths\<close>.\<close>

fun paths_loop :: "node \<Rightarrow> string list \<Rightarrow> results \<Rightarrow> pyerr + results" where
  "paths_loop group_dir [] results = Inr results"
| "paths_loop group_dir (path # rest) results =
     (case child group_dir path of
        None \<Rightarrow> paths_loop group_dir rest results
      | Some path_dir \<Rightarrow>
          (case sizes_loop path_dir sizes [] of
             Inl e \<Rightarrow> Inl e
           | Inr r \<Rightarrow> paths_loop group_dir rest (AList.update path r results)))"

definition summarize_dictionary :: "node \<Rightarrow> pyerr + results" where
  "summarize_dictionary group_dir = paths_loop group_dir paths []"

text \<open>\<open>path in results and size in results[path]\<close>, with the entry when both hold.\<close>

definition lookup2 :: "results \<Rightarrow> string \<Rightarrow> int \<Rightarrow> tresult option" where
  "lookup2 results path sz =
     (case map_of results path of None \<Rightarrow> None | Some r \<Rightarrow> map_of r sz)"

subsection \<open>What a run of the program leaves behind\<close>

text \<open>
  A run ends by reaching the end of the script, by \<open>sys.exit(n)\<close>, or with an exception
  that nothing catches.  Its observable result is the printed strings and that ending.
\<close>

datatype outcome = Finished | Exited nat | Uncaught pyerr

type_synonym run = "string list \<times> outcome"

text \<open>Printing \<open>ls\<close> and then running \<open>p\<close>; running \<open>p\<close> and, if it finishes, \<open>q\<close>.\<close>

definition emit :: "string list \<Rightarrow> run \<Rightarrow> run" where
  "emit ls p = (ls @ fst p, snd p)"

definition seq :: "run \<Rightarrow> run \<Rightarrow> run" where
  "seq p q = (case snd p of Finished \<Rightarrow> (fst p @ fst q, snd q) | oc \<Rightarrow> p)"

definition no_results_message :: string where
  "no_results_message = ''No benchmark results found. Run: cargo bench''"

text \<open>\<open>sorted(...)\<close> on directory entries and on \<open>dict\<close> items: ascending by name.\<close>

definition sorted_by_name :: "(string \<times> 'a) list \<Rightarrow> (string \<times> 'a) list" where
  "sorted_by_name xs = sort_key fst xs"

subsection \<open>\<open>print_full_table\<close>: the compact table\<close>

text \<open>
  The loop over the three variants for one row, on the state
  \<open>(row, best_path, best_throughput)\<close>.
\<close>

fun row_loop ::
  "results \<Rightarrow> string list \<Rightarrow> string \<times> string option \<times> rat \<Rightarrow> string \<times> string option \<times> rat"
where
  "row_loop results [] st = st"
| "row_loop results (path # rest) (row, best_path, best_throughput) =
     (case lookup2 results path 65536 of
        Some r \<Rightarrow>
          (let tp = throughput r; tp_mbps = throughput_mbps r; row' = row @ '' '' @ ljust 12 tp
           in if tp_mbps > best_throughput
              then row_loop results rest (row', Some path, tp_mbps)
              else row_loop results rest (row', best_path, best_throughput))
      | None \<Rightarrow> row_loop results rest (row @ '' '' @ ljust 12 ''-'', best_path, best_throughput))"

text \<open>One printed row; \<open>if best_path\<close> is false for \<open>None\<close> and for the empty string.\<close>

definition compact_row :: "string \<Rightarrow> results \<Rightarrow> string" where
  "compact_row name results =
     (case row_loop results paths (ljust 25 name, None, 0) of
        (row, best_path, best_throughput) \<Rightarrow>
          (case best_path of
             None \<Rightarrow> row
           | Some p \<Rightarrow> if p = [] then row else row @ '' '' @ p))"

text \<open>The printing loop: \<^verbatim>\<open>if not results: continue\<close> skips a group with an empty \<open>dict\<close>.\<close>

fun table_rows :: "(string \<times> results) list \<Rightarrow> string list" where
  "table_rows [] = []"
| "table_rows ((name, results) # rest) =
     (if results = [] then table_rows rest
      else compact_row name results # table_rows rest)"

text \<open>The collecting loop over the sorted directory entries.\<close>

fun collect ::
  "(string \<times> node) list \<Rightarrow> (string \<times> results) list \<Rightarrow> pyerr + (string \<times> results) list"
where
  "collect [] all_results = Inr all_results"
| "collect ((name, group_dir) # rest) all_results =
     (if \<not> is_dir group_dir \<or> name = ''report'' then collect rest all_results
      else
        (case summarize_dictionary group_dir of
           Inl e \<Rightarrow> Inl e
         | Inr r \<Rightarrow> collect rest (AList.update name r all_results)))"

definition table_head :: "string list" where
  "table_head =
     [CHR 0x0A # replicate 90 CHR ''='',
      ''base-d Benchmark Summary (64KB input)'',
      replicate 90 CHR ''='',
      ljust 25 ''Operation/Dictionary'' @ '' '' @ ljust 12 ''Scalar'' @ '' '' @ ljust 12 ''LUT''
        @ '' '' @ ljust 12 ''Specialized'' @ '' '' @ ljust 10 ''Best'',
      replicate 90 CHR ''-'']"

text \<open>
  The argument is \<open>target/criterion\<close>: \<open>None\<close> when it does not exist.  Listing a
  regular file raises; every record is read before the first line of the table is printed.
\<close>

fun print_full_table :: "node option \<Rightarrow> run" where
  "print_full_table None = ([no_results_message], Exited 1)"
| "print_full_table (Some (File c)) = ([], Uncaught NotADirectoryError)"
| "print_full_table (Some (Dir entries)) =
     (case collect (sorted_by_name entries) [] of
        Inl e \<Rightarrow> ([], Uncaught e)
      | Inr all_results \<Rightarrow>
          (table_head @ table_rows (sorted_by_name all_results) @ [replicate 90 CHR ''-''],
           Finished))"

subsection \<open>\<open>print_detailed\<close>: the per-group report\<close>

text \<open>The cells of one variant's row, \<open>for size in [64, 1024, 65536]\<close>.\<close>

fun cells_loop :: "size_results \<Rightarrow> int list \<Rightarrow> string \<Rightarrow> string" where
  "cells_loop r [] row = row"
| "cells_loop r (sz # rest) row =
     (case map_of r sz of
        Some t \<Rightarrow> cells_loop r rest (row @ '' '' @ ljust 10 (throughput t))
      | None \<Rightarrow> cells_loop r rest (row @ '' '' @ ljust 10 ''-''))"

fun detail_rows :: "results \<Rightarrow> string list \<Rightarrow> string list" where
  "detail_rows results [] = []"
| "detail_rows results (path # rest) =
     (case map_of results path of
        None \<Rightarrow> detail_rows results rest
      | Some r \<Rightarrow>
          cells_loop r [64, 1024, 65536] (''  '' @ ljust 12 path) # detail_rows results rest)"

text \<open>The loop \<open>for path in ["LUT", "Specialized"]\<close> of the speedup section.\<close>

definition speedup_line :: "string \<Rightarrow> rat \<Rightarrow> string" where
  "speedup_line path speedup = ''    '' @ path @ '': '' @ format_f 1 speedup @ ''x''"

fun speedup_loop :: "results \<Rightarrow> json \<Rightarrow> string list \<Rightarrow> run" where
  "speedup_loop results scalar_ns [] = ([], Finished)"
| "speedup_loop results scalar_ns (path # rest) =
     (case lookup2 results path 65536 of
        None \<Rightarrow> speedup_loop results scalar_ns rest
      | Some r \<Rightarrow>
          (case py_truediv scalar_ns (mean_ns r) of
             Inl e \<Rightarrow> ([], Uncaught e)
           | Inr speedup \<Rightarrow>
               emit [speedup_line path speedup] (speedup_loop results scalar_ns rest)))"

definition speedup_section :: "results \<Rightarrow> run" where
  "speedup_section results =
     (case lookup2 results ''Scalar'' 65536 of
        None \<Rightarrow> ([], Finished)
      | Some s \<Rightarrow>
          emit [CHR 0x0A # ''  Speedup vs Scalar (64KB):'']
            (speedup_loop results (mean_ns s) [''LUT'', ''Specialized'']))"

definition detail_head :: "string list" where
  "detail_head =
     [''  '' @ ljust 12 ''Path'' @ '' '' @ ljust 10 ''64B'' @ '' '' @ ljust 10 ''1KB''
        @ '' '' @ ljust 10 ''64KB'',
      ''  '' @ replicate 12 CHR ''-'' @ '' '' @ replicate 10 CHR ''-'' @ '' ''
        @ replicate 10 CHR ''-'' @ '' '' @ replicate 10 CHR ''-'']"

text \<open>The body of the loop over groups, for a directory that is not skipped.\<close>

definition detailed_group :: "string \<Rightarrow> node \<Rightarrow> run" where
  "detailed_group name group_dir =
     emit [CHR 0x0A # name, replicate 60 CHR ''-'']
       (case summarize_dictionary group_dir of
          Inl e \<Rightarrow> ([], Uncaught e)
        | Inr results \<Rightarrow>
            if results = [] then ([''  No results yet''], Finished)
            else emit (detail_head @ detail_rows results paths) (speedup_section results))"

fun detailed_loop :: "(string \<times> node) list \<Rightarrow> run" where
  "detailed_loop [] = ([], Finished)"
| "detailed_loop ((name, group_dir) # rest) =
     (if \<not> is_dir group_dir \<or> name = ''report'' then detailed_loop rest
      else seq (detailed_group name group_dir) (detailed_loop rest))"

fun print_detailed :: "node option \<Rightarrow> run" where
  "print_detailed None = ([no_results_message], Exited 1)"
| "print_detailed (Some (File c)) = ([], Uncaught NotADirectoryError)"
| "print_detailed (Some (Dir entries)) =
     emit [CHR 0x0A # replicate 80 CHR ''='',
           ''base-d Benchmark Results (Detailed)'',
           replicate 80 CHR ''='']
       (detailed_loop (sorted_by_name entries))"

text \<open>The script's entry point, on \<open>sys.argv\<close> and the directory \<open>target/criterion\<close>.\<close>

definition main :: "string list \<Rightarrow> node option \<Rightarrow> run" where
  "main argv criterion_dir =
     (if length argv > 1 \<and> argv ! 1 = ''--detailed'' then print_detailed criterion_dir
      else print_full_table criterion_dir)"

subsection \<open>Records as criterion writes them\<close>

text \<open>
  A size directory holding \<open>new/estimates.json\<close> with content \<open>c\<close>, and one whose content
  is a record with the two point estimates \<open>m\<close> and \<open>sd\<close>; used for the concrete inputs
  below.
\<close>

definition estimates_dir :: "content \<Rightarrow> node" where
  "estimates_dir c = Dir [(''new'', Dir [(''estimates.json'', File c)])]"

definition record_dir :: "json \<Rightarrow> json \<Rightarrow> node" where
  "record_dir m sd =
     estimates_dir (Json (JObj [(''mean'', JObj [(''point_estimate'', m)]),
                                (''std_dev'', JObj [(''point_estimate'', sd)])]))"

subsection \<open>The speedup section in the specification's words\<close>

text \<open>
  The specification: if Scalar has a result at size 65536, a heading and then, for each of
  LUT and Specialized that also has a result at size 65536, a line with
  \<open>scalar_mean_ns / variant_mean_ns\<close> to one decimal and an \<open>x\<close> suffix; nothing at all
  if Scalar has no result at that size.  \<open>number_of\<close> reads a stored mean as a number.
\<close>

definition number_of :: "json \<Rightarrow> rat" where
  "number_of j = (case as_number j of Some q \<Rightarrow> q | None \<Rightarrow> 0)"

definition spec_speedup_lines :: "results \<Rightarrow> string list" where
  "spec_speedup_lines results =
     (case lookup2 results ''Scalar'' 65536 of
        None \<Rightarrow> []
      | Some s \<Rightarrow>
          (CHR 0x0A # ''  Speedup vs Scalar (64KB):'')
          # concat (map (\<lambda>path. case lookup2 results path 65536 of
                                   None \<Rightarrow> []
                                 | Some v \<Rightarrow>
                                     [''    '' @ path @ '': ''
                                      @ format_f 1 (number_of (mean_ns s) / number_of (mean_ns v))
                                      @ ''x''])
                        [''LUT'', ''Specialized'']))"

subsection \<open>Predicates used to state the results\<close>

text \<open>Every stored mean at size 65536 is a number other than zero.\<close>

definition numeric_means :: "results \<Rightarrow> bool" where
  "numeric_means results \<longleftrightarrow>
     (\<forall>p t. lookup2 results p 65536 = Some t \<longrightarrow> (\<exists>m. as_number (mean_ns t) = Some m \<and> m \<noteq> 0))"

text \<open>
  What one entry of the root directory adds to \<open>all_results\<close>, and the rows that it
  contributes to the compact table.
\<close>

definition group_results :: "string \<Rightarrow> node \<Rightarrow> (string \<times> results) list" where
  "group_results name group_dir =
     (if is_dir group_dir \<and> name \<noteq> ''report''
      then (case summarize_dictionary group_dir of Inr r \<Rightarrow> [(name, r)] | Inl e \<Rightarrow> [])
      else [])"

definition group_rows :: "string \<Rightarrow> node \<Rightarrow> string list" where
  "group_rows name group_dir =
     (if is_dir group_dir \<and> name \<noteq> ''report''
      then (case summarize_dictionary group_dir of
              Inr r \<Rightarrow> if r = [] then [] else [compact_row name r]
            | Inl e \<Rightarrow> [])
      else [])"

section \<open>Evaluation lemmas\<close>

lemma floor_rat_numeral_div [simp]:
  "\<lfloor>numeral a / numeral b :: rat\<rfloor> = numeral a div numeral b"
  by (metis floor_divide_of_int_eq of_int_numeral)

lemma ceiling_rat_numeral_div [simp]:
  "\<lceil>numeral a / numeral b :: rat\<rceil> = - ((- numeral a) div numeral b)"
  by (metis floor_divide_of_int_eq of_int_numeral ceiling_def of_int_minus minus_divide_left)

lemmas b64_eval =
  binary64_def floor_log2_def pow2_def bit_length.simps get_throughput_binary64_def

lemmas format_eval =
  format_f_def round_half_even_def Let_def str_nat.simps zfill_def digit_char_def

lemmas fs_eval =
  summarize_dictionary_def paths_def sizes_def size_step_def parse_estimates_def
  parse_estimates_try_def caught_def str_int_def get_throughput_def lookup2_def record_dir_def
  estimates_dir_def

lemma replicate_numeral: "replicate (numeral k) x = x # replicate (pred_numeral k) x"
  by (simp add: numeral_eq_Suc)

lemmas row_eval =
  replicate_numeral compact_row_def ljust_def table_head_def sorted_by_name_def
  no_results_message_def

lemmas detail_eval =
  detailed_group_def emit_def seq_def detail_head_def speedup_section_def
  speedup_line_def py_truediv_def spec_speedup_lines_def number_of_def

lemmas run_eval = main_def row_eval detail_eval


section \<open>Aggregation: what the two loops compute\<close>

lemma get_throughput_Inr_nonzero: "get_throughput m s = Inr x \<Longrightarrow> m \<noteq> 0"
  by (auto simp: get_throughput_def)

lemma get_throughput_zero_iff: "get_throughput m s = Inl ZeroDivisionError \<longleftrightarrow> m = 0"
  by (auto simp: get_throughput_def Let_def)

lemma get_throughput_cases: "get_throughput m s = Inl e \<Longrightarrow> e = ZeroDivisionError \<and> m = 0"
  by (auto simp: get_throughput_def Let_def split: if_splits)

lemma size_step_SomeD:
  assumes "size_step pd s = Inr (Some t)"
  shows "\<exists>sd est m. child pd (str_int s) = Some sd \<and> parse_estimates sd = Inr (Some est)
           \<and> as_number (mean_ns est) = Some m \<and> m \<noteq> 0
           \<and> get_throughput m s = Inr (throughput_mbps t, throughput t)
           \<and> mean_ns t = mean_ns est \<and> std_dev_ns t = std_dev_ns est"
  using assms
  by (auto simp: size_step_def dest: get_throughput_Inr_nonzero
           split: option.splits sum.splits prod.splits)

lemma size_step_None_iff:
  "size_step pd s = Inr None \<longleftrightarrow>
     child pd (str_int s) = None
     \<or> (\<exists>sd. child pd (str_int s) = Some sd \<and> parse_estimates sd = Inr None)"
  by (auto simp: size_step_def split: option.splits sum.splits prod.splits)

lemma size_step_parsed:
  assumes "child pd (str_int s) = Some sd" and "parse_estimates sd = Inr (Some est)"
    and "size_step pd s = Inr ot"
  shows "\<exists>t. ot = Some t"
  using assms
  by (auto simp: size_step_def split: option.splits sum.splits prod.splits)

lemma sizes_loop_map:
  "sizes_loop pd szs acc = Inr r \<Longrightarrow>
     map_of r s =
       (if s \<in> set szs
        then (case size_step pd s of Inr (Some t) \<Rightarrow> Some t | _ \<Rightarrow> map_of acc s)
        else map_of acc s)"
proof (induction szs arbitrary: acc)
  case Nil
  then show ?case by simp
next
  case (Cons a szs)
  show ?case
  proof (cases "size_step pd a")
    case (Inl e)
    with Cons.prems show ?thesis by simp
  next
    case (Inr ot)
    show ?thesis
    proof (cases ot)
      case None
      with Inr Cons.prems have "sizes_loop pd szs acc = Inr r" by simp
      from Cons.IH [OF this] Inr None show ?thesis by auto
    next
      case (Some t)
      with Inr Cons.prems have "sizes_loop pd szs (AList.update a t acc) = Inr r" by simp
      from Cons.IH [OF this] Inr Some show ?thesis
        by (cases "s = a") (auto simp: update_conv' split: sum.splits option.splits)
    qed
  qed
qed

lemma sizes_loop_no_error:
  "sizes_loop pd szs acc = Inr r \<Longrightarrow> s \<in> set szs \<Longrightarrow> \<exists>ot. size_step pd s = Inr ot"
  by (induction szs arbitrary: acc) (auto split: sum.splits option.splits)

lemma sizes_loop_error:
  "s \<in> set szs \<Longrightarrow> size_step pd s = Inl e \<Longrightarrow> \<exists>e'. sizes_loop pd szs acc = Inl e'"
  using sizes_loop_no_error [of pd szs acc _ s]
  by (cases "sizes_loop pd szs acc") auto

lemma paths_loop_map:
  "paths_loop g ps acc = Inr res \<Longrightarrow>
     map_of res p =
       (if p \<in> set ps
        then (case child g p of
                None \<Rightarrow> map_of acc p
              | Some pd \<Rightarrow> (case sizes_loop pd sizes [] of Inr r \<Rightarrow> Some r | Inl e \<Rightarrow> map_of acc p))
        else map_of acc p)"
proof (induction ps arbitrary: acc)
  case Nil
  then show ?case by simp
next
  case (Cons a ps)
  show ?case
  proof (cases "child g a")
    case None
    with Cons.prems have "paths_loop g ps acc = Inr res" by simp
    from Cons.IH [OF this] None show ?thesis by auto
  next
    case (Some pd)
    with Cons.prems obtain r where r: "sizes_loop pd sizes [] = Inr r"
      and rest: "paths_loop g ps (AList.update a r acc) = Inr res"
      by (auto split: sum.splits)
    from Cons.IH [OF rest] Some r show ?thesis
      by (cases "p = a") (auto simp: update_conv' split: sum.splits option.splits)
  qed
qed

lemma paths_loop_no_error:
  "paths_loop g ps acc = Inr res \<Longrightarrow> p \<in> set ps \<Longrightarrow> child g p = Some pd \<Longrightarrow>
     \<exists>r. sizes_loop pd sizes [] = Inr r"
  by (induction ps arbitrary: acc) (auto split: sum.splits option.splits)

lemma summarize_map:
  assumes "summarize_dictionary g = Inr res"
  shows "map_of res p =
           (if p \<in> set paths
            then (case child g p of
                    None \<Rightarrow> None
                  | Some pd \<Rightarrow> (case sizes_loop pd sizes [] of Inr r \<Rightarrow> Some r | Inl e \<Rightarrow> None))
            else None)"
  using paths_loop_map [OF assms [unfolded summarize_dictionary_def], of p]
  by (simp split: option.splits sum.splits)

lemma summarize_variant:
  assumes "summarize_dictionary g = Inr res"
  shows "map_of res p = Some r \<longleftrightarrow>
           p \<in> set paths \<and> (\<exists>pd. child g p = Some pd \<and> sizes_loop pd sizes [] = Inr r)"
proof (cases "p \<in> set paths \<and> child g p \<noteq> None")
  case True
  then obtain pd where pd: "child g p = Some pd" by auto
  from paths_loop_no_error [OF assms [unfolded summarize_dictionary_def] _ pd] True
  obtain r' where "sizes_loop pd sizes [] = Inr r'" by auto
  with summarize_map [OF assms, of p] True pd show ?thesis by auto
next
  case False
  with summarize_map [OF assms, of p] show ?thesis by (auto split: option.splits)
qed

lemma summarize_lookup2:
  assumes "summarize_dictionary g = Inr res"
  shows "lookup2 res p s = Some t \<longleftrightarrow>
           p \<in> set paths \<and> s \<in> set sizes
           \<and> (\<exists>pd. child g p = Some pd \<and> size_step pd s = Inr (Some t))"
proof -
  have "lookup2 res p s = Some t \<longleftrightarrow> (\<exists>r. map_of res p = Some r \<and> map_of r s = Some t)"
    by (auto simp: lookup2_def split: option.splits)
  also have "\<dots> \<longleftrightarrow> (p \<in> set paths \<and>
       (\<exists>pd r. child g p = Some pd \<and> sizes_loop pd sizes [] = Inr r \<and> map_of r s = Some t))"
    using summarize_variant [OF assms] by auto
  also have "\<dots> \<longleftrightarrow> (p \<in> set paths \<and> s \<in> set sizes
       \<and> (\<exists>pd. child g p = Some pd \<and> size_step pd s = Inr (Some t)))"
  proof -
    have *: "map_of r s = Some t \<longleftrightarrow> s \<in> set sizes \<and> size_step pd s = Inr (Some t)"
      if "sizes_loop pd sizes [] = Inr r" for pd r
      using sizes_loop_map [OF that, of s] sizes_loop_no_error [OF that, of s]
      by (auto split: sum.splits option.splits)
    have **: "\<exists>r. sizes_loop pd sizes [] = Inr r"
      if "p \<in> set paths" "child g p = Some pd" for pd
      using paths_loop_no_error [OF assms [unfolded summarize_dictionary_def] that] .
    show ?thesis using * ** by blast
  qed
  finally show ?thesis .
qed

lemma summarize_mean_nonzero:
  assumes "summarize_dictionary g = Inr res" and "lookup2 res p s = Some t"
  shows "\<exists>m. as_number (mean_ns t) = Some m \<and> m \<noteq> 0"
proof -
  from summarize_lookup2 [OF assms(1), of p s t] assms(2)
  obtain pd where "size_step pd s = Inr (Some t)" by auto
  from size_step_SomeD [OF this] show ?thesis by auto
qed

section \<open>Rounding to binary64\<close>

lemma bit_length_nonneg: "0 \<le> bit_length n"
  by (induction n rule: bit_length.induct) (simp add: bit_length.simps)

lemma bit_length_pos: "0 < n \<Longrightarrow> 1 \<le> bit_length n"
  using bit_length_nonneg [of "n div 2"] by (subst bit_length.simps) simp

lemma bit_length_bounds:
  "0 < n \<Longrightarrow> 2 ^ nat (bit_length n - 1) \<le> n \<and> n < 2 ^ nat (bit_length n)"
proof (induction n rule: bit_length.induct)
  case (1 n)
  show ?case
  proof (cases "n = 1")
    case True
    then show ?thesis by (simp add: bit_length.simps)
  next
    case False
    with "1.prems" have m: "0 < n div 2" by simp
    have bl: "bit_length n = 1 + bit_length (n div 2)"
      using "1.prems" by (subst bit_length.simps) simp
    from "1.IH" m "1.prems"
    have ih: "2 ^ nat (bit_length (n div 2) - 1) \<le> n div 2"
      "n div 2 < 2 ^ nat (bit_length (n div 2))" by auto
    have pos: "1 \<le> bit_length (n div 2)" by (rule bit_length_pos [OF m])
    have e1: "nat (bit_length n - 1) = Suc (nat (bit_length (n div 2) - 1))"
      using bl pos by simp
    have e2: "nat (bit_length n) = Suc (nat (bit_length (n div 2)))"
      using bl pos by simp
    have "2 * (n div 2) \<le> n" "n \<le> 2 * (n div 2) + 1" by presburger+
    with ih show ?thesis unfolding e1 e2 by simp
  qed
qed

lemma pow2_pos: "0 < pow2 e"
  by (simp add: pow2_def)

lemma pow2_add_nat: "pow2 (e + int k) = pow2 e * 2 ^ k"
proof -
  consider "0 \<le> e" | "e < 0" "0 \<le> e + int k" | "e + int k < 0" by linarith
  then show ?thesis
  proof cases
    case 1
    then have "nat (e + int k) = nat e + k" by simp
    with 1 show ?thesis by (simp add: pow2_def power_add)
  next
    case 2
    then have "k = nat (e + int k) + nat (- e)" by simp
    then have "(2::rat) ^ k = 2 ^ nat (e + int k) * 2 ^ nat (- e)"
      by (metis power_add)
    with 2 show ?thesis by (simp add: pow2_def)
  next
    case 3
    then have "nat (- e) = nat (- e - int k) + k" by simp
    then have "(2::rat) ^ nat (- e) = 2 ^ nat (- e - int k) * 2 ^ k"
      by (metis power_add)
    with 3 show ?thesis by (simp add: pow2_def)
  qed
qed

lemma floor_log2_bounds:
  assumes "0 < y"
  shows "pow2 (floor_log2 y) \<le> y \<and> y < 2 * pow2 (floor_log2 y)"
proof (cases "1 \<le> y")
  case True
  define n where "n = \<lfloor>y\<rfloor>"
  have n: "0 < n" "of_int n \<le> y" "y < of_int n + 1"
    using True unfolding n_def by linarith+
  from bit_length_bounds [OF n(1)]
  have b: "2 ^ nat (bit_length n - 1) \<le> n" "n < 2 ^ nat (bit_length n)" by auto
  have pos: "1 \<le> bit_length n" by (rule bit_length_pos [OF n(1)])
  have fl: "floor_log2 y = bit_length n - 1"
    using True by (simp add: floor_log2_def n_def)
  have p: "pow2 (bit_length n - 1) = 2 ^ nat (bit_length n - 1)"
    using pos by (simp add: pow2_def)
  have "(of_int (2 ^ nat (bit_length n - 1)) :: rat) \<le> of_int n"
    using b(1) by (simp only: of_int_le_iff)
  then have "(2::rat) ^ nat (bit_length n - 1) \<le> of_int n" by simp
  with n(2) have "(2::rat) ^ nat (bit_length n - 1) \<le> y" by linarith
  with fl p have lo: "pow2 (floor_log2 y) \<le> y" by simp
  have "nat (bit_length n) = Suc (nat (bit_length n - 1))" using pos by simp
  then have "(2::int) ^ nat (bit_length n) = 2 * 2 ^ nat (bit_length n - 1)" by simp
  with b(2) have "n + 1 \<le> 2 * 2 ^ nat (bit_length n - 1)" by simp
  then have "of_int (n + 1) \<le> (of_int (2 * 2 ^ nat (bit_length n - 1)) :: rat)"
    by (simp only: of_int_le_iff)
  then have "of_int n + 1 \<le> 2 * (2::rat) ^ nat (bit_length n - 1)" by simp
  with n(3) fl p have hi: "y < 2 * pow2 (floor_log2 y)" by simp
  from lo hi show ?thesis by simp
next
  case False
  define m where "m = \<lceil>1 / y\<rceil> - 1"
  from False assms have "1 < 1 / y" by simp
  then have m: "0 < m" "of_int m < 1 / y" "1 / y \<le> of_int m + 1"
    unfolding m_def by linarith+
  from bit_length_bounds [OF m(1)]
  have b: "2 ^ nat (bit_length m - 1) \<le> m" "m < 2 ^ nat (bit_length m)" by auto
  have pos: "1 \<le> bit_length m" by (rule bit_length_pos [OF m(1)])
  have fl: "floor_log2 y = - bit_length m"
    using False by (simp add: floor_log2_def m_def)
  have p: "pow2 (- bit_length m) = 1 / 2 ^ nat (bit_length m)"
    using pos by (simp add: pow2_def)
  have "m + 1 \<le> 2 ^ nat (bit_length m)" using b(2) by simp
  then have "of_int (m + 1) \<le> (of_int (2 ^ nat (bit_length m)) :: rat)"
    by (simp only: of_int_le_iff)
  then have "1 / y \<le> 2 ^ nat (bit_length m)" using m(3) by simp
  then have "1 / 2 ^ nat (bit_length m) \<le> y"
    using assms by (simp add: field_simps)
  with fl p have lo: "pow2 (floor_log2 y) \<le> y" by simp
  have eq: "nat (bit_length m) = Suc (nat (bit_length m - 1))" using pos by simp
  have "(of_int (2 ^ nat (bit_length m - 1)) :: rat) \<le> of_int m"
    using b(1) by (simp only: of_int_le_iff)
  then have "(2::rat) ^ nat (bit_length m - 1) \<le> of_int m" by simp
  with m(2) have "(2::rat) ^ nat (bit_length m - 1) < 1 / y" by linarith
  then have "y < 1 / 2 ^ nat (bit_length m - 1)" using assms by (simp add: field_simps)
  moreover have "2 * (1 / (2::rat) ^ nat (bit_length m)) = 1 / 2 ^ nat (bit_length m - 1)"
    by (subst eq) simp
  ultimately have hi: "y < 2 * pow2 (floor_log2 y)"
    using fl p by simp
  from lo hi show ?thesis by simp
qed

lemma round_half_even_error: "\<bar>of_int (round_half_even z) - z\<bar> \<le> 1 / 2"
proof -
  have "of_int \<lfloor>z\<rfloor> \<le> z" "z < of_int \<lfloor>z\<rfloor> + 1" by linarith+
  then show ?thesis by (auto simp: round_half_even_def Let_def)
qed

lemma binary64_error:
  assumes "x \<noteq> 0"
  shows "\<bar>binary64 x - x\<bar> \<le> \<bar>x\<bar> / 2 ^ 53"
proof -
  define e where "e = floor_log2 \<bar>x\<bar> - 52"
  define z where "z = \<bar>x\<bar> / pow2 e"
  define r where "r = (of_int (round_half_even z) :: rat)"
  have ax: "0 < \<bar>x\<bar>" using assms by simp
  from floor_log2_bounds [OF ax] have "pow2 (e + 52) \<le> \<bar>x\<bar>" by (simp add: e_def)
  moreover have "pow2 (e + 52) = pow2 e * 2 ^ 52"
    using pow2_add_nat [of e 52] by simp
  ultimately have z: "2 ^ 52 \<le> z"
    using pow2_pos [of e] by (simp add: z_def field_simps)
  have b: "binary64 x = sgn x * r * pow2 e"
    using assms by (simp add: binary64_def Let_def e_def z_def r_def)
  have x: "x = sgn x * z * pow2 e"
    using pow2_pos [of e] by (simp add: z_def mult_sgn_abs)
  have "binary64 x - x = sgn x * (r - z) * pow2 e"
    by (subst b, subst (2) x) (simp add: algebra_simps)
  then have "\<bar>binary64 x - x\<bar> = \<bar>r - z\<bar> * pow2 e"
    using assms pow2_pos [of e] by (simp add: abs_mult abs_sgn_eq)
  also have "\<dots> \<le> (1 / 2) * pow2 e"
    using round_half_even_error [of z] pow2_pos [of e] by (simp add: r_def)
  also have "\<dots> \<le> (z / 2 ^ 53) * pow2 e"
    using z pow2_pos [of e] by simp
  also have "\<dots> = \<bar>x\<bar> / 2 ^ 53"
    using pow2_pos [of e] by (simp add: z_def)
  finally show ?thesis .
qed

lemma binary64_zero_iff: "binary64 x = 0 \<longleftrightarrow> x = 0"
proof
  assume z: "binary64 x = 0"
  show "x = 0"
  proof (rule ccontr)
    assume nz: "x \<noteq> 0"
    from binary64_error [OF nz] z have "\<bar>x\<bar> \<le> \<bar>x\<bar> / 2 ^ 53" by simp
    moreover have "\<bar>x\<bar> / 2 ^ 53 < \<bar>x\<bar>" using nz by simp
    ultimately show False by linarith
  qed
next
  assume "x = 0"
  then show "binary64 x = 0" by (simp add: binary64_def)
qed

lemma get_throughput_binary64_zero_iff:
  "get_throughput_binary64 m s = Inl ZeroDivisionError \<longleftrightarrow> m = 0"
  by (auto simp: get_throughput_binary64_def Let_def binary64_zero_iff)



section \<open>The throughput calculation\<close>



text \<open>
  Claim C7.  At \<open>size_bytes = 1048576\<close> and \<open>mean_ns = 1000000\<close> the throughput is exactly
  1000, which meets the GB/s threshold, and the display string is \<open>0.98 GB/s\<close>; this is so
  in exact arithmetic and also when every operation rounds to binary64.
\<close>

theorem get_throughput_at_threshold:
  "get_throughput 1000000 1048576 = Inr (1000, ''0.98 GB/s'')
   \<and> get_throughput_binary64 1000000 1048576 = Inr (1000, ''0.98 GB/s'')
   \<and> (1000 :: rat) \<ge> 1000"
  by (simp add: get_throughput_def b64_eval format_eval)

text \<open>
  Claim C3 says that \<open>size_bytes = 65536\<close> and \<open>mean_ns = 65536\<close> give about 976.56 and
  the string \<open>976.6 MB/s\<close>.  One byte per nanosecond is \<open>10^9 / 2^20\<close> MB/s, which is below
  954: the value of the claim is \<open>10^6 / 2^10\<close>.
\<close>

theorem get_throughput_one_byte_per_ns_not_976:
  "get_throughput 65536 65536 = Inr (1953125 / 2048, ''953.7 MB/s'')
   \<and> get_throughput_binary64 65536 65536
       = Inr (8388607999999999 / 8796093022208, ''953.7 MB/s'')
   \<and> (1953125 / 2048 :: rat) < 954 \<and> (8388607999999999 / 8796093022208 :: rat) < 954
   \<and> ''953.7 MB/s'' \<noteq> ''976.6 MB/s''"
  by (simp add: get_throughput_def b64_eval format_eval)

text \<open>
  Claim C3, amended.  At \<open>size_bytes = 65536\<close> and \<open>mean_ns = 65536\<close> the throughput is
  about 953.67 (\<open>1953125 / 2048\<close> in exact arithmetic, one unit in the last place less
  in binary64) and the display string is \<open>953.7 MB/s\<close>.
\<close>

theorem get_throughput_one_byte_per_ns:
  "get_throughput 65536 65536 = Inr (1953125 / 2048, ''953.7 MB/s'')
   \<and> get_throughput_binary64 65536 65536
       = Inr (1953125 / 2048 - 1 / 2 ^ 43, ''953.7 MB/s'')
   \<and> \<bar>(1953125 / 2048 :: rat) - 953.67\<bar> < 1 / 100
   \<and> \<bar>(1953125 / 2048 - 1 / 2 ^ 43 :: rat) - 953.67\<bar> < 1 / 100"
  by (simp add: get_throughput_def b64_eval format_eval)

section \<open>The estimate reader\<close>

text \<open>
  Claim C4 says that every failure of the reader, a field of the wrong shape included,
  gives \<open>None\<close> and that no exception leaves it.  A record whose \<open>mean\<close> is a number
  instead of an object makes the subscript \<open>data["mean"]["point_estimate"]\<close> raise
  \<open>TypeError\<close>, which the \<open>except\<close> clause does not list.
\<close>

theorem parse_estimates_wrong_shape_raises:
  "parse_estimates
     (estimates_dir (Json (JObj [(''mean'', JNum 5),
                                 (''std_dev'', JObj [(''point_estimate'', JNum 1)])])))
    = Inl TypeError"
  by (simp add: fs_eval)

text \<open>
  Claim C4, amended.  The reader returns \<open>None\<close>, and raises nothing, in these cases: the
  size directory has no entry \<open>new\<close>; \<open>new\<close> is a directory that has no entry
  \<open>estimates.json\<close>; \<open>estimates.json\<close> is a regular file whose text is not JSON
  (\<open>JSONDecodeError\<close>); its content is a JSON object in which a required field is missing
  from the object that should hold it, the fields looked up before it being present and
  objects.  When all four lookups succeed it returns the two estimates.
\<close>

theorem parse_estimates_absence:
  "(path = Dir entries \<and> map_of entries ''new'' = None
      \<longrightarrow> parse_estimates path = Inr None)
   \<and> (path = Dir entries \<and> map_of entries ''new'' = Some (Dir new)
        \<and> map_of new ''estimates.json'' = None
      \<longrightarrow> parse_estimates path = Inr None)
   \<and> (open_file path [''new'', ''estimates.json''] = Inr NotJson
      \<longrightarrow> parse_estimates path = Inr None)
   \<and> (open_file path [''new'', ''estimates.json''] = Inr (Json (JObj kvs))
      \<longrightarrow>
        (map_of kvs ''mean'' = None \<longrightarrow> parse_estimates path = Inr None)
      \<and> (map_of kvs ''mean'' = Some (JObj mean) \<longrightarrow>
           (map_of mean ''point_estimate'' = None \<longrightarrow> parse_estimates path = Inr None)
         \<and> (map_of mean ''point_estimate'' = Some m \<longrightarrow>
              (map_of kvs ''std_dev'' = None \<longrightarrow> parse_estimates path = Inr None)
            \<and> (map_of kvs ''std_dev'' = Some (JObj std_dev) \<longrightarrow>
                 (map_of std_dev ''point_estimate'' = None \<longrightarrow> parse_estimates path = Inr None)
               \<and> (map_of std_dev ''point_estimate'' = Some sd \<longrightarrow>
                    parse_estimates path = Inr (Some \<lparr>mean_ns = m, std_dev_ns = sd\<rparr>))))))"
  by (auto simp: parse_estimates_def parse_estimates_try_def caught_def)

theorem parse_estimates_absence_witness:
  "map_of ([] :: (string \<times> node) list) ''new'' = None
   \<and> parse_estimates (Dir []) = Inr None
   \<and> map_of [(''new'', Dir [])] ''new'' = Some (Dir [])
   \<and> map_of ([] :: (string \<times> node) list) ''estimates.json'' = None
   \<and> parse_estimates (Dir [(''new'', Dir [])]) = Inr None
   \<and> open_file (estimates_dir NotJson) [''new'', ''estimates.json''] = Inr NotJson
   \<and> parse_estimates (estimates_dir NotJson) = Inr None
   \<and> open_file (estimates_dir (Json (JObj []))) [''new'', ''estimates.json'']
       = Inr (Json (JObj []))
   \<and> parse_estimates (estimates_dir (Json (JObj []))) = Inr None
   \<and> parse_estimates (estimates_dir (Json (JObj [(''mean'', JObj [])]))) = Inr None
   \<and> parse_estimates
         (estimates_dir (Json (JObj [(''mean'', JObj [(''point_estimate'', JNum 5)])])))
       = Inr None
   \<and> parse_estimates
         (estimates_dir (Json (JObj [(''mean'', JObj [(''point_estimate'', JNum 5)]),
                                     (''std_dev'', JObj [])])))
       = Inr None
   \<and> parse_estimates (record_dir (JNum 5) (JNum 1))
       = Inr (Some \<lparr>mean_ns = JNum 5, std_dev_ns = JNum 1\<rparr>)"
  using parse_estimates_absence [of "Dir []" "[]"]
    parse_estimates_absence [of "Dir [(''new'', Dir [])]" "[(''new'', Dir [])]" "[]"]
    parse_estimates_absence [of "estimates_dir NotJson"]
    parse_estimates_absence [of "estimates_dir (Json (JObj []))" _ _ "[]"]
    parse_estimates_absence [of "estimates_dir (Json (JObj [(''mean'', JObj [])]))" _ _
           "[(''mean'', JObj [])]" "[]"]
    parse_estimates_absence
          [of "estimates_dir (Json (JObj [(''mean'', JObj [(''point_estimate'', JNum 5)])]))" _ _
           "[(''mean'', JObj [(''point_estimate'', JNum 5)])]" "[(''point_estimate'', JNum 5)]"
           "JNum 5"]
    parse_estimates_absence
          [of "estimates_dir (Json (JObj [(''mean'', JObj [(''point_estimate'', JNum 5)]),
                                          (''std_dev'', JObj [])]))" _ _
           "[(''mean'', JObj [(''point_estimate'', JNum 5)]), (''std_dev'', JObj [])]"
           "[(''point_estimate'', JNum 5)]" "JNum 5" "[]"]
    parse_estimates_absence [of "record_dir (JNum 5) (JNum 1)" _ _
           "[(''mean'', JObj [(''point_estimate'', JNum 5)]),
             (''std_dev'', JObj [(''point_estimate'', JNum 1)])]"
           "[(''point_estimate'', JNum 5)]" "JNum 5" "[(''point_estimate'', JNum 1)]" "JNum 1"]
  by (simp add: record_dir_def estimates_dir_def)

section \<open>The aggregated structure\<close>

text \<open>
  Claim C2 says that a variant whose directory exists but holds no record that parses is
  not a key of the result.  The code stores an empty dictionary for every variant
  directory that exists, before it looks at any size.
\<close>

theorem summarize_dictionary_empty_variant_kept:
  "summarize_dictionary (Dir [(''Scalar'', Dir [])]) = Inr [(''Scalar'', [])]
   \<and> ''Scalar'' \<in> fst ` set [(''Scalar'', ([] :: size_results))]"
  by (simp add: fs_eval)

text \<open>
  Claim C2, amended.  When the aggregation of a group returns, a variant is a key of the
  result exactly when it is one of the three variants and its directory exists, and a
  size is a key under a variant exactly when, in addition, it is one of the six sizes, its
  directory exists and its record parsed.
\<close>

theorem summarize_dictionary_keys:
  assumes "summarize_dictionary g = Inr res"
  shows "(p \<in> fst ` set res \<longleftrightarrow> p \<in> set paths \<and> child g p \<noteq> None)
       \<and> (lookup2 res p s \<noteq> None \<longleftrightarrow>
            p \<in> set paths \<and> s \<in> set sizes
            \<and> (\<exists>pd sd est. child g p = Some pd \<and> child pd (str_int s) = Some sd
                 \<and> parse_estimates sd = Inr (Some est)))"
proof
  have "p \<in> fst ` set res \<longleftrightarrow> (\<exists>r. map_of res p = Some r)"
    using map_of_eq_None_iff [of res p] by auto
  also have "\<dots> \<longleftrightarrow> p \<in> set paths \<and> child g p \<noteq> None"
    using summarize_variant [OF assms, of p]
      paths_loop_no_error [OF assms [unfolded summarize_dictionary_def], of p]
    by auto
  finally show "p \<in> fst ` set res \<longleftrightarrow> p \<in> set paths \<and> child g p \<noteq> None" .
next
  show "lookup2 res p s \<noteq> None \<longleftrightarrow>
            p \<in> set paths \<and> s \<in> set sizes
            \<and> (\<exists>pd sd est. child g p = Some pd \<and> child pd (str_int s) = Some sd
                 \<and> parse_estimates sd = Inr (Some est))"
  proof
    assume "lookup2 res p s \<noteq> None"
    then obtain t where "lookup2 res p s = Some t" by auto
    with summarize_lookup2 [OF assms, of p s t]
    obtain pd where "p \<in> set paths" "s \<in> set sizes" "child g p = Some pd"
      "size_step pd s = Inr (Some t)" by auto
    with size_step_SomeD [of pd s t]
    show "p \<in> set paths \<and> s \<in> set sizes
            \<and> (\<exists>pd sd est. child g p = Some pd \<and> child pd (str_int s) = Some sd
                 \<and> parse_estimates sd = Inr (Some est))"
      by blast
  next
    assume r: "p \<in> set paths \<and> s \<in> set sizes
            \<and> (\<exists>pd sd est. child g p = Some pd \<and> child pd (str_int s) = Some sd
                 \<and> parse_estimates sd = Inr (Some est))"
    then obtain pd sd est where pd: "child g p = Some pd" and sd: "child pd (str_int s) = Some sd"
      and est: "parse_estimates sd = Inr (Some est)" by auto
    from paths_loop_no_error [OF assms [unfolded summarize_dictionary_def] _ pd] r
    obtain sr where "sizes_loop pd sizes [] = Inr sr" by auto
    from sizes_loop_no_error [OF this, of s] r obtain ot where ot: "size_step pd s = Inr ot"
      by auto
    from size_step_parsed [OF sd est ot] obtain t where "ot = Some t" by auto
    with ot summarize_lookup2 [OF assms, of p s t] r pd show "lookup2 res p s \<noteq> None"
      by auto
  qed
qed

theorem summarize_dictionary_keys_witness:
  "summarize_dictionary (Dir [(''LUT'', Dir [(''65536'', record_dir (JNum 1000) (JNum 1))])])
     = Inr [(''LUT'', [(65536, \<lparr>mean_ns = JNum 1000, std_dev_ns = JNum 1,
                                 throughput = ''61.04 GB/s'', throughput_mbps = 62500\<rparr>)])]
   \<and> ''LUT'' \<in> fst ` set [(''LUT'', [(65536 :: int, \<lparr>mean_ns = JNum 1000, std_dev_ns = JNum 1,
                                 throughput = ''61.04 GB/s'', throughput_mbps = 62500\<rparr>)])]
   \<and> lookup2 [(''LUT'', [(65536, \<lparr>mean_ns = JNum 1000, std_dev_ns = JNum 1,
                                 throughput = ''61.04 GB/s'', throughput_mbps = 62500\<rparr>)])]
         ''LUT'' 65536 \<noteq> None"
proof -
  have h: "summarize_dictionary (Dir [(''LUT'', Dir [(''65536'', record_dir (JNum 1000) (JNum 1))])])
     = Inr [(''LUT'', [(65536, \<lparr>mean_ns = JNum 1000, std_dev_ns = JNum 1,
                                 throughput = ''61.04 GB/s'', throughput_mbps = 62500\<rparr>)])]"
    by (simp add: fs_eval format_eval)
  from summarize_dictionary_keys [OF h, of "''LUT''" 65536] h show ?thesis
    by (simp add: fs_eval format_eval)
qed

section \<open>The compact table: the best variant\<close>

text \<open>
  The invariant of the loop over the variants: the running best throughput never
  decreases, bounds every variant seen, and the running best variant changes only at a
  variant whose throughput is strictly above everything before it.
\<close>

lemma row_loop_best:
  "row_loop results ps (row, bp, bt) = (row', bp', bt') \<Longrightarrow>
     bt \<le> bt'
     \<and> (\<forall>q\<in>set ps. \<forall>u. lookup2 results q 65536 = Some u \<longrightarrow> throughput_mbps u \<le> bt')
     \<and> (bp' = bp \<and> bt' = bt
        \<or> (\<exists>pre p post t. ps = pre @ p # post \<and> bp' = Some p
              \<and> lookup2 results p 65536 = Some t \<and> throughput_mbps t = bt' \<and> bt < bt'
              \<and> (\<forall>q\<in>set pre. \<forall>u. lookup2 results q 65536 = Some u
                     \<longrightarrow> throughput_mbps u < bt')))"
proof (induction ps arbitrary: row bp bt)
  case Nil
  then show ?case by simp
next
  case (Cons a ps)
  show ?case
  proof (cases "lookup2 results a 65536")
    case None
    with Cons.prems have "row_loop results ps (row @ '' '' @ ljust 12 ''-'', bp, bt) = (row', bp', bt')"
      by simp
    from Cons.IH [OF this] show ?thesis
    proof (elim conjE disjE exE)
      assume "bt \<le> bt'" "\<forall>q\<in>set ps. \<forall>u. lookup2 results q 65536 = Some u \<longrightarrow> throughput_mbps u \<le> bt'"
        "bp' = bp" "bt' = bt"
      with None show ?thesis by auto
    next
      fix pre p post t
      assume h: "bt \<le> bt'" "\<forall>q\<in>set ps. \<forall>u. lookup2 results q 65536 = Some u \<longrightarrow> throughput_mbps u \<le> bt'"
        "ps = pre @ p # post" "bp' = Some p" "lookup2 results p 65536 = Some t"
        "throughput_mbps t = bt'" "bt < bt'"
        "\<forall>q\<in>set pre. \<forall>u. lookup2 results q 65536 = Some u \<longrightarrow> throughput_mbps u < bt'"
      then have "a # ps = (a # pre) @ p # post"
        "\<forall>q\<in>set (a # pre). \<forall>u. lookup2 results q 65536 = Some u \<longrightarrow> throughput_mbps u < bt'"
        using None by auto
      with h None show ?thesis by (metis option.distinct(1) set_ConsD)
    qed
  next
    case (Some r)
    show ?thesis
    proof (cases "throughput_mbps r > bt")
      case True
      with Some Cons.prems have
        "row_loop results ps (row @ '' '' @ ljust 12 (throughput r), Some a, throughput_mbps r) = (row', bp', bt')"
        by (simp add: Let_def)
      from Cons.IH [OF this] show ?thesis
      proof (elim conjE disjE exE)
        assume h: "throughput_mbps r \<le> bt'"
          "\<forall>q\<in>set ps. \<forall>u. lookup2 results q 65536 = Some u \<longrightarrow> throughput_mbps u \<le> bt'"
          "bp' = Some a" "bt' = throughput_mbps r"
        have "a # ps = [] @ a # ps \<and> bp' = Some a \<and> lookup2 results a 65536 = Some r
            \<and> throughput_mbps r = bt' \<and> bt < bt'
            \<and> (\<forall>q\<in>set ([] :: string list). \<forall>u. lookup2 results q 65536 = Some u
                   \<longrightarrow> throughput_mbps u < bt')"
          using h Some True by simp
        then have "\<exists>pre p post t. a # ps = pre @ p # post \<and> bp' = Some p
              \<and> lookup2 results p 65536 = Some t \<and> throughput_mbps t = bt' \<and> bt < bt'
              \<and> (\<forall>q\<in>set pre. \<forall>u. lookup2 results q 65536 = Some u
                     \<longrightarrow> throughput_mbps u < bt')"
          by blast
        moreover have "bt \<le> bt'" using h True by simp
        moreover have "\<forall>q\<in>set (a # ps). \<forall>u. lookup2 results q 65536 = Some u
                     \<longrightarrow> throughput_mbps u \<le> bt'"
          using h Some by auto
        ultimately show ?thesis by blast
      next
        fix pre p post t
        assume h: "throughput_mbps r \<le> bt'"
          "\<forall>q\<in>set ps. \<forall>u. lookup2 results q 65536 = Some u \<longrightarrow> throughput_mbps u \<le> bt'"
          "ps = pre @ p # post" "bp' = Some p" "lookup2 results p 65536 = Some t"
          "throughput_mbps t = bt'" "throughput_mbps r < bt'"
          "\<forall>q\<in>set pre. \<forall>u. lookup2 results q 65536 = Some u \<longrightarrow> throughput_mbps u < bt'"
        then have "a # ps = (a # pre) @ p # post"
          "\<forall>q\<in>set (a # pre). \<forall>u. lookup2 results q 65536 = Some u \<longrightarrow> throughput_mbps u < bt'"
          using Some by auto
        moreover have "bt \<le> bt'" "bt < bt'" using True h by auto
        moreover have "\<forall>q\<in>set (a # ps). \<forall>u. lookup2 results q 65536 = Some u \<longrightarrow> throughput_mbps u \<le> bt'"
          using h Some by auto
        ultimately show ?thesis using h by blast
      qed
    next
      case False
      with Some Cons.prems have
        "row_loop results ps (row @ '' '' @ ljust 12 (throughput r), bp, bt) = (row', bp', bt')"
        by (simp add: Let_def)
      from Cons.IH [OF this] show ?thesis
      proof (elim conjE disjE exE)
        assume "bt \<le> bt'" "\<forall>q\<in>set ps. \<forall>u. lookup2 results q 65536 = Some u \<longrightarrow> throughput_mbps u \<le> bt'"
          "bp' = bp" "bt' = bt"
        with Some False show ?thesis by auto
      next
        fix pre p post t
        assume h: "bt \<le> bt'"
          "\<forall>q\<in>set ps. \<forall>u. lookup2 results q 65536 = Some u \<longrightarrow> throughput_mbps u \<le> bt'"
          "ps = pre @ p # post" "bp' = Some p" "lookup2 results p 65536 = Some t"
          "throughput_mbps t = bt'" "bt < bt'"
          "\<forall>q\<in>set pre. \<forall>u. lookup2 results q 65536 = Some u \<longrightarrow> throughput_mbps u < bt'"
        then have "a # ps = (a # pre) @ p # post"
          "\<forall>q\<in>set (a # pre). \<forall>u. lookup2 results q 65536 = Some u \<longrightarrow> throughput_mbps u < bt'"
          using Some False by auto
        moreover have "\<forall>q\<in>set (a # ps). \<forall>u. lookup2 results q 65536 = Some u \<longrightarrow> throughput_mbps u \<le> bt'"
          using h Some False by auto
        ultimately show ?thesis using h by blast
      qed
    qed
  qed
qed

text \<open>
  Claim C6 says that when Scalar and LUT have equal throughput at size 65536 and
  Specialized is absent or lower, the best variant is Scalar.  The running best starts at
  0 and is replaced only by a strictly greater value, so two equal throughputs that are
  not positive (a record with a negative mean) leave the row without a best variant.
\<close>

theorem compact_best_nonpositive_tie:
  "summarize_dictionary
     (Dir [(''Scalar'', Dir [(''65536'', record_dir (JNum (- 1000)) (JNum 1))]),
           (''LUT'', Dir [(''65536'', record_dir (JNum (- 1000)) (JNum 1))])])
    = Inr [(''Scalar'', [(65536, \<lparr>mean_ns = JNum (- 1000), std_dev_ns = JNum 1,
                                    throughput = ''-62500.0 MB/s'', throughput_mbps = - 62500\<rparr>)]),
           (''LUT'', [(65536, \<lparr>mean_ns = JNum (- 1000), std_dev_ns = JNum 1,
                                 throughput = ''-62500.0 MB/s'', throughput_mbps = - 62500\<rparr>)])]
   \<and> compact_row ''g''
        [(''Scalar'', [(65536, \<lparr>mean_ns = JNum (- 1000), std_dev_ns = JNum 1,
                                    throughput = ''-62500.0 MB/s'', throughput_mbps = - 62500\<rparr>)]),
         (''LUT'', [(65536, \<lparr>mean_ns = JNum (- 1000), std_dev_ns = JNum 1,
                                 throughput = ''-62500.0 MB/s'', throughput_mbps = - 62500\<rparr>)])]
      = ''g                         -62500.0 MB/s -62500.0 MB/s -           ''"
  by (simp add: fs_eval format_eval row_eval)

text \<open>
  Claim C6, amended.  For every group the loop examines Scalar, LUT, Specialized in this
  order at size 65536, starting from best throughput 0 and replacing the best only on a
  strictly greater value: no best is reported exactly when no variant has a positive
  throughput; a reported best has a positive throughput that no variant exceeds and that
  every earlier variant stays strictly below, so the earliest of equal maxima wins.  In
  particular, if Scalar and LUT have equal positive throughput and Specialized is absent
  or lower, the best is Scalar, and its name ends the printed row.
\<close>

theorem compact_best_selection:
  assumes "row_loop results paths (row, None, 0) = (row', best, bt)"
  shows "(best = None \<longrightarrow>
            (\<forall>q\<in>set paths. \<forall>u. lookup2 results q 65536 = Some u \<longrightarrow> throughput_mbps u \<le> 0))
       \<and> (\<forall>p. best = Some p \<longrightarrow>
            (\<exists>pre post t. paths = pre @ p # post \<and> lookup2 results p 65536 = Some t
               \<and> 0 < throughput_mbps t
               \<and> (\<forall>q\<in>set pre. \<forall>u. lookup2 results q 65536 = Some u
                      \<longrightarrow> throughput_mbps u < throughput_mbps t)
               \<and> (\<forall>q\<in>set paths. \<forall>u. lookup2 results q 65536 = Some u
                      \<longrightarrow> throughput_mbps u \<le> throughput_mbps t)))
       \<and> (\<forall>a b. lookup2 results ''Scalar'' 65536 = Some a
             \<and> lookup2 results ''LUT'' 65536 = Some b
             \<and> throughput_mbps a = throughput_mbps b \<and> 0 < throughput_mbps a
             \<and> (lookup2 results ''Specialized'' 65536 = None
                \<or> (\<exists>c. lookup2 results ''Specialized'' 65536 = Some c
                       \<and> throughput_mbps c < throughput_mbps a))
             \<longrightarrow> best = Some ''Scalar'')
       \<and> (row = ljust 25 name \<longrightarrow>
            compact_row name results = (case best of None \<Rightarrow> row' | Some p \<Rightarrow> row' @ '' '' @ p))"
proof (intro conjI)
  note rl = row_loop_best [OF assms]
  show "best = None \<longrightarrow>
            (\<forall>q\<in>set paths. \<forall>u. lookup2 results q 65536 = Some u \<longrightarrow> throughput_mbps u \<le> 0)"
    using rl by auto
  show "\<forall>p. best = Some p \<longrightarrow>
            (\<exists>pre post t. paths = pre @ p # post \<and> lookup2 results p 65536 = Some t
               \<and> 0 < throughput_mbps t
               \<and> (\<forall>q\<in>set pre. \<forall>u. lookup2 results q 65536 = Some u
                      \<longrightarrow> throughput_mbps u < throughput_mbps t)
               \<and> (\<forall>q\<in>set paths. \<forall>u. lookup2 results q 65536 = Some u
                      \<longrightarrow> throughput_mbps u \<le> throughput_mbps t))"
    using rl by auto
  show "\<forall>a b. lookup2 results ''Scalar'' 65536 = Some a
             \<and> lookup2 results ''LUT'' 65536 = Some b
             \<and> throughput_mbps a = throughput_mbps b \<and> 0 < throughput_mbps a
             \<and> (lookup2 results ''Specialized'' 65536 = None
                \<or> (\<exists>c. lookup2 results ''Specialized'' 65536 = Some c
                       \<and> throughput_mbps c < throughput_mbps a))
             \<longrightarrow> best = Some ''Scalar''"
    using assms by (auto simp: paths_def Let_def split: if_splits)
  show "row = ljust 25 name \<longrightarrow>
            compact_row name results = (case best of None \<Rightarrow> row' | Some p \<Rightarrow> row' @ '' '' @ p)"
  proof
    assume "row = ljust 25 name"
    moreover have "p \<noteq> []" if "best = Some p" for p
    proof -
      from rl that obtain pre post where "paths = pre @ p # post" by auto
      then have "p \<in> set paths" by (metis in_set_conv_decomp)
      then show ?thesis by (auto simp: paths_def)
    qed
    ultimately show "compact_row name results = (case best of None \<Rightarrow> row' | Some p \<Rightarrow> row' @ '' '' @ p)"
      using assms by (auto simp: compact_row_def split: option.splits)
  qed
qed

theorem compact_best_selection_witness:
  "row_loop
     [(''Scalar'', [(65536, \<lparr>mean_ns = JNum 1000, std_dev_ns = JNum 1,
                                 throughput = ''61.04 GB/s'', throughput_mbps = 62500\<rparr>)]),
      (''LUT'', [(65536, \<lparr>mean_ns = JNum 1000, std_dev_ns = JNum 1,
                              throughput = ''61.04 GB/s'', throughput_mbps = 62500\<rparr>)])]
     paths (ljust 25 ''g'', None, 0)
    = (''g                         61.04 GB/s   61.04 GB/s   -           '', Some ''Scalar'', 62500)
   \<and> compact_row ''g''
     [(''Scalar'', [(65536, \<lparr>mean_ns = JNum 1000, std_dev_ns = JNum 1,
                                 throughput = ''61.04 GB/s'', throughput_mbps = 62500\<rparr>)]),
      (''LUT'', [(65536, \<lparr>mean_ns = JNum 1000, std_dev_ns = JNum 1,
                              throughput = ''61.04 GB/s'', throughput_mbps = 62500\<rparr>)])]
    = ''g                         61.04 GB/s   61.04 GB/s   -            Scalar''"
proof -
  have h: "row_loop
     [(''Scalar'', [(65536, \<lparr>mean_ns = JNum 1000, std_dev_ns = JNum 1,
                                 throughput = ''61.04 GB/s'', throughput_mbps = 62500\<rparr>)]),
      (''LUT'', [(65536, \<lparr>mean_ns = JNum 1000, std_dev_ns = JNum 1,
                              throughput = ''61.04 GB/s'', throughput_mbps = 62500\<rparr>)])]
     paths (ljust 25 ''g'', None, 0)
    = (''g                         61.04 GB/s   61.04 GB/s   -           '', Some ''Scalar'', 62500)"
    by (simp add: paths_def lookup2_def ljust_def replicate_numeral)
  from compact_best_selection [OF h, of "''g''"] h show ?thesis
    by (simp add: lookup2_def)
qed

section \<open>The detailed report: the speedup section\<close>

lemma speedup_loop_lines:
  assumes "numeric_means results" and "as_number sn = Some ms"
  shows "speedup_loop results sn ps =
           (concat (map (\<lambda>path. case lookup2 results path 65536 of
                                   None \<Rightarrow> []
                                 | Some v \<Rightarrow>
                                     [''    '' @ path @ '': ''
                                      @ format_f 1 (number_of sn / number_of (mean_ns v))
                                      @ ''x'']) ps), Finished)"
proof (induction ps)
  case Nil
  show ?case by simp
next
  case (Cons a ps)
  show ?case
  proof (cases "lookup2 results a 65536")
    case None
    with Cons show ?thesis by simp
  next
    case (Some v)
    with assms(1) obtain m where "as_number (mean_ns v) = Some m" "m \<noteq> 0"
      by (auto simp: numeric_means_def)
    with assms(2) have "py_truediv sn (mean_ns v) = Inr (number_of sn / number_of (mean_ns v))"
      by (simp add: py_truediv_def number_of_def)
    with Some Cons show ?thesis by (simp add: emit_def speedup_line_def)
  qed
qed

lemma speedup_section_lines:
  assumes "numeric_means results"
  shows "speedup_section results = (spec_speedup_lines results, Finished)"
proof (cases "lookup2 results ''Scalar'' 65536")
  case None
  then show ?thesis by (simp add: speedup_section_def spec_speedup_lines_def)
next
  case (Some s)
  with assms obtain ms where "as_number (mean_ns s) = Some ms"
    by (auto simp: numeric_means_def)
  from speedup_loop_lines [OF assms this, of "[''LUT'', ''Specialized'']"] Some
  show ?thesis by (simp add: speedup_section_def spec_speedup_lines_def emit_def)
qed

lemma summarize_numeric_means:
  "summarize_dictionary g = Inr results \<Longrightarrow> numeric_means results"
  unfolding numeric_means_def using summarize_mean_nonzero by blast



section \<open>How a run ends\<close>

lemma speedup_loop_not_exited: "snd (speedup_loop results sn ps) \<noteq> Exited n"
  by (induction ps) (auto simp: emit_def split: option.splits sum.splits)

lemma detailed_group_not_exited: "snd (detailed_group name g) \<noteq> Exited n"
  using speedup_loop_not_exited
  by (auto simp: detailed_group_def emit_def speedup_section_def split: sum.splits option.splits)

lemma detailed_loop_not_exited: "snd (detailed_loop xs) \<noteq> Exited n"
proof (induction xs)
  case Nil
  show ?case by simp
next
  case (Cons x xs)
  obtain name g where x: "x = (name, g)" by (cases x)
  show ?case
    using Cons detailed_group_not_exited [of name g n]
    by (auto simp: x seq_def split: outcome.splits)
qed

lemma print_full_table_exited: "snd (print_full_table cdir) = Exited n \<longleftrightarrow> cdir = None \<and> n = 1"
proof (cases cdir)
  case None
  then show ?thesis by auto
next
  case (Some nd)
  then show ?thesis by (cases nd) (auto split: sum.splits)
qed

lemma print_detailed_exited: "snd (print_detailed cdir) = Exited n \<longleftrightarrow> cdir = None \<and> n = 1"
proof (cases cdir)
  case None
  then show ?thesis by auto
next
  case (Some nd)
  then show ?thesis using detailed_loop_not_exited by (cases nd) (auto simp: emit_def)
qed

lemma collect_total:
  "(\<forall>(name, g)\<in>set xs. is_dir g \<and> name \<noteq> ''report'' \<longrightarrow> (\<exists>r. summarize_dictionary g = Inr r))
     \<Longrightarrow> \<exists>all. collect xs acc = Inr all"
proof (induction xs arbitrary: acc)
  case Nil
  show ?case by simp
next
  case (Cons x xs)
  obtain name g where x: "x = (name, g)" by (cases x)
  from Cons.prems have rest: "\<forall>(name, g)\<in>set xs. is_dir g \<and> name \<noteq> ''report''
      \<longrightarrow> (\<exists>r. summarize_dictionary g = Inr r)" by simp
  show ?case
  proof (cases "\<not> is_dir g \<or> name = ''report''")
    case True
    with Cons.IH [OF rest, of acc] x show ?thesis by auto
  next
    case False
    with Cons.prems x obtain r where r: "summarize_dictionary g = Inr r" by auto
    from Cons.IH [OF rest, of "AList.update name r acc"] False r x show ?thesis by auto
  qed
qed

lemma detailed_group_finished:
  assumes "summarize_dictionary g = Inr r"
  shows "snd (detailed_group name g) = Finished"
  using assms speedup_section_lines [OF summarize_numeric_means [OF assms]]
  by (simp add: detailed_group_def emit_def)

lemma detailed_loop_finished:
  "(\<forall>(name, g)\<in>set xs. is_dir g \<and> name \<noteq> ''report'' \<longrightarrow> (\<exists>r. summarize_dictionary g = Inr r))
     \<Longrightarrow> snd (detailed_loop xs) = Finished"
proof (induction xs)
  case Nil
  show ?case by simp
next
  case (Cons x xs)
  obtain name g where x: "x = (name, g)" by (cases x)
  from Cons have rest: "snd (detailed_loop xs) = Finished" by simp
  show ?case
  proof (cases "\<not> is_dir g \<or> name = ''report''")
    case True
    with rest x show ?thesis by auto
  next
    case False
    with Cons.prems x obtain r where "summarize_dictionary g = Inr r" by auto
    from detailed_group_finished [OF this, of name] rest False x show ?thesis
      by (simp add: seq_def)
  qed
qed

text \<open>
  Claim C9 says that a missing root directory is the only path on which the program
  aborts.  With the root present, a record whose mean is zero ends both reports with an
  uncaught \<open>ZeroDivisionError\<close>: the compact report before it prints anything, the
  detailed report after the heading of the group.
\<close>

theorem zero_mean_aborts_with_root_present:
  "main [''bench_summary.py'']
     (Some (Dir [(''g'', Dir [(''Scalar'', Dir [(''64'', record_dir (JNum 0) (JNum 0))])])]))
    = ([], Uncaught ZeroDivisionError)
   \<and> snd (main [''bench_summary.py'', ''--detailed'']
     (Some (Dir [(''g'', Dir [(''Scalar'', Dir [(''64'', record_dir (JNum 0) (JNum 0))])])])))
    = Uncaught ZeroDivisionError"
  by (simp add: fs_eval format_eval run_eval)

text \<open>
  Claim C9, amended.  In both report modes, if the root benchmark directory does not
  exist, the program prints the one-line instruction to run the benchmarking harness and
  exits with status 1, and prints nothing else; this is the only path on which the
  program exits by its own exit call.
\<close>

theorem root_missing_exit:
  "main argv None = ([no_results_message], Exited 1)
   \<and> (snd (main argv cdir) = Exited n \<longleftrightarrow> cdir = None \<and> n = 1)"
proof (intro conjI)
  show "main argv None = ([no_results_message], Exited 1)"
    by (simp add: main_def)
  show "snd (main argv cdir) = Exited n \<longleftrightarrow> cdir = None \<and> n = 1"
    using print_full_table_exited [of cdir n] print_detailed_exited [of cdir n]
    by (simp add: main_def)
qed

section \<open>A zero mean\<close>

lemma size_step_zero_mean:
  assumes "child pd (str_int sz) = Some sd" and "parse_estimates sd = Inr (Some est)"
    and "as_number (mean_ns est) = Some 0"
  shows "size_step pd sz = Inl ZeroDivisionError"
  using assms by (simp add: size_step_def get_throughput_def)

lemma paths_loop_error:
  assumes "p \<in> set ps" and "child g p = Some pd" and "sizes_loop pd sizes [] = Inl e"
  shows "\<exists>e'. paths_loop g ps acc = Inl e'"
proof (cases "paths_loop g ps acc")
  case (Inl e')
  then show ?thesis by auto
next
  case (Inr res)
  from paths_loop_no_error [OF Inr assms(1,2)] assms(3) show ?thesis by auto
qed

lemma collect_error:
  assumes "(name, g) \<in> set xs" and "is_dir g" and "name \<noteq> ''report''"
    and "summarize_dictionary g = Inl e"
  shows "\<exists>e'. collect xs acc = Inl e'"
  using assms(1)
proof (induction xs arbitrary: acc)
  case Nil
  then show ?case by simp
next
  case (Cons x xs)
  obtain n' g' where x: "x = (n', g')" by (cases x)
  show ?case
  proof (cases "x = (name, g)")
    case True
    with assms x show ?thesis by auto
  next
    case False
    with Cons.prems have "(name, g) \<in> set xs" by auto
    from Cons.IH [OF this] x show ?thesis by (auto split: sum.splits)
  qed
qed

lemma detailed_loop_error:
  assumes "(name, g) \<in> set xs" and "is_dir g" and "name \<noteq> ''report''"
    and "summarize_dictionary g = Inl e"
  shows "\<exists>e'. snd (detailed_loop xs) = Uncaught e'"
  using assms(1)
proof (induction xs)
  case Nil
  then show ?case by simp
next
  case (Cons x xs)
  obtain n' g' where x: "x = (n', g')" by (cases x)
  show ?case
  proof (cases "x = (name, g)")
    case True
    with assms x have "snd (detailed_group n' g') = Uncaught e"
      by (simp add: detailed_group_def emit_def)
    with True assms x show ?thesis by (simp add: seq_def)
  next
    case False
    with Cons.prems have "(name, g) \<in> set xs" by auto
    from Cons.IH [OF this] obtain e' where e': "snd (detailed_loop xs) = Uncaught e'" by auto
    show ?thesis
    proof (cases "\<not> is_dir g' \<or> n' = ''report''")
      case True
      with e' x show ?thesis by auto
    next
      case False
      then show ?thesis
        using e' x detailed_group_not_exited [of n' g']
        by (cases "snd (detailed_group n' g')") (auto simp: seq_def)
    qed
  qed
qed

text \<open>
  Claim C10.  \<open>get_throughput\<close> is not total: with \<open>mean_ns = 0\<close> it raises
  \<open>ZeroDivisionError\<close> for every size, and it raises that error only then (in exact
  arithmetic and in binary64 with no underflow), so its absence needs \<open>mean_ns \<noteq> 0\<close>.  A record that parses with a zero mean, under one of the three
  variants and six sizes of a discovered group, makes the loop body raise
  \<open>ZeroDivisionError\<close>; the aggregation of the group raises, and so does the whole run in
  either mode.
\<close>

theorem zero_mean_crashes:
  "get_throughput 0 size_bytes = Inl ZeroDivisionError
   \<and> (get_throughput m size_bytes = Inl ZeroDivisionError \<longleftrightarrow> m = 0)
   \<and> (get_throughput_binary64 m size_bytes = Inl ZeroDivisionError \<longleftrightarrow> m = 0)
   \<and> ((name, g) \<in> set entries \<and> is_dir g \<and> name \<noteq> ''report''
        \<and> p \<in> set paths \<and> child g p = Some pd
        \<and> sz \<in> set sizes \<and> child pd (str_int sz) = Some sd
        \<and> parse_estimates sd = Inr (Some est) \<and> as_number (mean_ns est) = Some 0
      \<longrightarrow> size_step pd sz = Inl ZeroDivisionError
          \<and> (\<exists>e. summarize_dictionary g = Inl e)
          \<and> (\<exists>e. snd (main argv (Some (Dir entries))) = Uncaught e))"
proof (intro conjI impI)
  show "get_throughput 0 size_bytes = Inl ZeroDivisionError"
    by (simp add: get_throughput_def)
  show "get_throughput m size_bytes = Inl ZeroDivisionError \<longleftrightarrow> m = 0"
    by (rule get_throughput_zero_iff)
  show "get_throughput_binary64 m size_bytes = Inl ZeroDivisionError \<longleftrightarrow> m = 0"
    by (rule get_throughput_binary64_zero_iff)
next
  assume h: "(name, g) \<in> set entries \<and> is_dir g \<and> name \<noteq> ''report''
        \<and> p \<in> set paths \<and> child g p = Some pd
        \<and> sz \<in> set sizes \<and> child pd (str_int sz) = Some sd
        \<and> parse_estimates sd = Inr (Some est) \<and> as_number (mean_ns est) = Some 0"
  then have step: "size_step pd sz = Inl ZeroDivisionError"
    using size_step_zero_mean by blast
  from sizes_loop_error [OF _ step, of sizes "[]"] h
  obtain e1 where "sizes_loop pd sizes [] = Inl e1" by auto
  from paths_loop_error [OF _ _ this, of p paths g "[]"] h
  obtain e2 where e2: "summarize_dictionary g = Inl e2"
    by (auto simp: summarize_dictionary_def)
  from h have mem: "(name, g) \<in> set (sorted_by_name entries)"
    by (simp add: sorted_by_name_def)
  from collect_error [OF mem _ _ e2, of "[]"] h
  have "\<exists>e. snd (print_full_table (Some (Dir entries))) = Uncaught e" by auto
  moreover from detailed_loop_error [OF mem _ _ e2] h
  have "\<exists>e. snd (print_detailed (Some (Dir entries))) = Uncaught e"
    by (auto simp: emit_def)
  ultimately have run: "\<exists>e. snd (main argv (Some (Dir entries))) = Uncaught e"
    by (simp add: main_def)
  show "size_step pd sz = Inl ZeroDivisionError" by (rule step)
  show "\<exists>e. summarize_dictionary g = Inl e" using e2 by blast
  show "\<exists>e. snd (main argv (Some (Dir entries))) = Uncaught e" by (rule run)
qed

theorem zero_mean_crashes_witness:
  "((''g'', Dir [(''Scalar'', Dir [(''64'', record_dir (JNum 0) (JNum 0))])])
      \<in> set [(''g'', Dir [(''Scalar'', Dir [(''64'', record_dir (JNum 0) (JNum 0))])])]
    \<and> is_dir (Dir [(''Scalar'', Dir [(''64'', record_dir (JNum 0) (JNum 0))])])
    \<and> ''g'' \<noteq> ''report''
    \<and> ''Scalar'' \<in> set paths
    \<and> child (Dir [(''Scalar'', Dir [(''64'', record_dir (JNum 0) (JNum 0))])]) ''Scalar''
        = Some (Dir [(''64'', record_dir (JNum 0) (JNum 0))])
    \<and> 64 \<in> set sizes
    \<and> child (Dir [(''64'', record_dir (JNum 0) (JNum 0))]) (str_int 64)
        = Some (record_dir (JNum 0) (JNum 0))
    \<and> parse_estimates (record_dir (JNum 0) (JNum 0))
        = Inr (Some \<lparr>mean_ns = JNum 0, std_dev_ns = JNum 0\<rparr>)
    \<and> as_number (mean_ns \<lparr>mean_ns = JNum 0, std_dev_ns = JNum 0\<rparr>) = Some 0)
   \<and> get_throughput 0 64 = Inl ZeroDivisionError
   \<and> size_step (Dir [(''64'', record_dir (JNum 0) (JNum 0))]) 64 = Inl ZeroDivisionError
   \<and> (\<exists>e. summarize_dictionary (Dir [(''Scalar'', Dir [(''64'', record_dir (JNum 0) (JNum 0))])])
            = Inl e)
   \<and> (\<exists>e. snd (main [''bench_summary.py'']
            (Some (Dir [(''g'', Dir [(''Scalar'', Dir [(''64'', record_dir (JNum 0) (JNum 0))])])])))
            = Uncaught e)"
proof -
  have h: "(''g'', Dir [(''Scalar'', Dir [(''64'', record_dir (JNum 0) (JNum 0))])])
             \<in> set [(''g'', Dir [(''Scalar'', Dir [(''64'', record_dir (JNum 0) (JNum 0))])])]
        \<and> is_dir (Dir [(''Scalar'', Dir [(''64'', record_dir (JNum 0) (JNum 0))])])
        \<and> ''g'' \<noteq> ''report''
        \<and> ''Scalar'' \<in> set paths
        \<and> child (Dir [(''Scalar'', Dir [(''64'', record_dir (JNum 0) (JNum 0))])]) ''Scalar''
            = Some (Dir [(''64'', record_dir (JNum 0) (JNum 0))])
        \<and> 64 \<in> set sizes
        \<and> child (Dir [(''64'', record_dir (JNum 0) (JNum 0))]) (str_int 64)
            = Some (record_dir (JNum 0) (JNum 0))
        \<and> parse_estimates (record_dir (JNum 0) (JNum 0))
            = Inr (Some \<lparr>mean_ns = JNum 0, std_dev_ns = JNum 0\<rparr>)
        \<and> as_number (mean_ns \<lparr>mean_ns = JNum 0, std_dev_ns = JNum 0\<rparr>) = Some 0"
    by (simp add: fs_eval format_eval)
  from zero_mean_crashes [of 64 0 "''g''" "Dir [(''Scalar'', Dir [(''64'', record_dir (JNum 0) (JNum 0))])]"
      "[(''g'', Dir [(''Scalar'', Dir [(''64'', record_dir (JNum 0) (JNum 0))])])]"
      "''Scalar''" "Dir [(''64'', record_dir (JNum 0) (JNum 0))]" 64
      "record_dir (JNum 0) (JNum 0)" "\<lparr>mean_ns = JNum 0, std_dev_ns = JNum 0\<rparr>"
      "[''bench_summary.py'']"] h
  show ?thesis by blast
qed

section \<open>The compact table: which groups get a row\<close>

lemma update_fresh: "k \<notin> fst ` set al \<Longrightarrow> AList.update k v al = al @ [(k, v)]"
  by (induction al) auto

lemma table_rows_append: "table_rows (xs @ ys) = table_rows xs @ table_rows ys"
  by (induction xs rule: table_rows.induct) auto

lemma group_rows_results: "group_rows name g = table_rows (group_results name g)"
  by (simp add: group_rows_def group_results_def split: sum.splits)

lemma table_rows_groups:
  "table_rows (concat (map (\<lambda>(n, g). group_results n g) xs))
     = concat (map (\<lambda>(n, g). group_rows n g) xs)"
proof (induction xs)
  case Nil
  show ?case by simp
next
  case (Cons x xs)
  obtain n g where x: "x = (n, g)" by (cases x)
  from Cons show ?case
    unfolding x by (simp add: table_rows_append group_rows_results)
qed

lemma group_results_cases:
  "group_results n g = [] \<or> (\<exists>r. group_results n g = [(n, r)])"
  by (auto simp: group_results_def split: sum.splits)

lemma group_results_names: "fst ` set (group_results n g) \<subseteq> {n}"
  using group_results_cases [of n g] by auto

lemma groups_names:
  "fst ` set (concat (map (\<lambda>(n, g). group_results n g) xs)) \<subseteq> fst ` set xs"
proof (induction xs)
  case Nil
  show ?case by simp
next
  case (Cons x xs)
  obtain n g where x: "x = (n, g)" by (cases x)
  from Cons group_results_names [of n g] show ?case
    unfolding x by (simp add: image_Un) blast
qed

lemma sorted_groups:
  "sorted (map fst xs) \<Longrightarrow> sorted (map fst (concat (map (\<lambda>(n, g). group_results n g) xs)))"
proof (induction xs)
  case Nil
  show ?case by simp
next
  case (Cons x xs)
  obtain n g where x: "x = (n, g)" by (cases x)
  from Cons.prems have le: "\<forall>y\<in>fst ` set xs. n \<le> y" and s: "sorted (map fst xs)"
    by (auto simp: x)
  from le groups_names [of xs]
  have le': "\<forall>y\<in>fst ` set (concat (map (\<lambda>(n, g). group_results n g) xs)). n \<le> y"
    by blast
  from group_results_cases [of n g] show ?case
  proof
    assume "group_results n g = []"
    with Cons.IH [OF s] show ?thesis unfolding x by simp
  next
    assume "\<exists>r. group_results n g = [(n, r)]"
    then obtain r where "group_results n g = [(n, r)]" by blast
    with le' Cons.IH [OF s] show ?thesis unfolding x by simp
  qed
qed

lemma collect_items:
  "collect xs acc = Inr all \<Longrightarrow> distinct (map fst xs) \<Longrightarrow> fst ` set acc \<inter> fst ` set xs = {}
     \<Longrightarrow> all = acc @ concat (map (\<lambda>(n, g). group_results n g) xs)"
proof (induction xs arbitrary: acc)
  case Nil
  then show ?case by simp
next
  case (Cons x xs)
  obtain n g where x: "x = (n, g)" by (cases x)
  from Cons.prems have d: "distinct (map fst xs)" and fresh: "n \<notin> fst ` set xs"
    and nacc: "n \<notin> fst ` set acc" and disj: "fst ` set acc \<inter> fst ` set xs = {}"
    by (auto simp: x)
  show ?case
  proof (cases "\<not> is_dir g \<or> n = ''report''")
    case True
    with Cons.prems x have "collect xs acc = Inr all" by auto
    from Cons.IH [OF this d disj] True x show ?thesis by (auto simp: group_results_def)
  next
    case False
    with Cons.prems x obtain r where r: "summarize_dictionary g = Inr r"
      and rest: "collect xs (AList.update n r acc) = Inr all"
      by (auto split: sum.splits)
    have upd: "AList.update n r acc = acc @ [(n, r)]" by (rule update_fresh [OF nacc])
    have "fst ` set (acc @ [(n, r)]) \<inter> fst ` set xs = {}" using disj fresh by auto
    from Cons.IH [OF rest [unfolded upd] d this] False r x show ?thesis
      by (simp add: group_results_def)
  qed
qed

lemma distinct_map_insort_key:
  "distinct (map f (insort_key f x xs)) \<longleftrightarrow> f x \<notin> f ` set xs \<and> distinct (map f xs)"
  by (induction xs) (auto simp: set_insort_key)

lemma distinct_map_sort_key: "distinct (map f (sort_key f xs)) \<longleftrightarrow> distinct (map f xs)"
  by (induction xs) (auto simp: distinct_map_insort_key)

lemma summarize_empty_iff:
  assumes "summarize_dictionary g = Inr r"
  shows "r = [] \<longleftrightarrow> (\<forall>p\<in>set paths. child g p = None)"
proof
  assume "r = []"
  then have "map_of r p = None" for p by simp
  with summarize_variant [OF assms]
    paths_loop_no_error [OF assms [unfolded summarize_dictionary_def]]
  show "\<forall>p\<in>set paths. child g p = None"
    by (metis not_None_eq option.distinct(1))
next
  assume h: "\<forall>p\<in>set paths. child g p = None"
  show "r = []"
  proof (rule ccontr)
    assume "r \<noteq> []"
    then obtain k v rest where "r = (k, v) # rest" by (cases r) auto
    then have "map_of r k = Some v" by simp
    with summarize_variant [OF assms, of k v] h show False by auto
  qed
qed

lemma compact_row_all_dashes:
  assumes "\<forall>p\<in>set paths. lookup2 r p 65536 = None"
  shows "compact_row name r
           = ljust 25 name @ '' '' @ ljust 12 ''-'' @ '' '' @ ljust 12 ''-'' @ '' '' @ ljust 12 ''-''"
  using assms by (simp add: compact_row_def paths_def)

text \<open>
  Claim C1 says that in compact mode a group whose aggregation produced no results is
  still printed as a row.  The printing loop skips a group whose result is the empty
  dictionary: a root with the single, empty group \<open>alpha\<close> gives a table without rows.
\<close>

theorem compact_table_drops_empty_group:
  "is_dir (Dir []) \<and> ''alpha'' \<noteq> ''report'' \<and> summarize_dictionary (Dir []) = Inr []
   \<and> print_full_table (Some (Dir [(''alpha'', Dir [])]))
       = (table_head @ [replicate 90 CHR ''-''], Finished)"
  by (simp add: fs_eval sorted_by_name_def)

text \<open>
  Claim C1, amended.  In compact mode the rows of the table are, in ascending order of
  name, one row for every discovered group whose aggregation result is not empty, and none
  for a group whose result is empty; the result is empty exactly when the group has none
  of the three variant directories; and a group with a variant directory but no result at
  size 65536 is printed as a row of three placeholder dashes with no best entry.  In
  detailed mode a group with an empty result is listed, with the line \<open>No results yet\<close>.
\<close>

theorem compact_table_rows:
  assumes "distinct (map fst entries)"
    and "print_full_table (Some (Dir entries)) = (out, Finished)"
  shows "out = table_head
                 @ concat (map (\<lambda>(name, g). group_rows name g) (sorted_by_name entries))
                 @ [replicate 90 CHR ''-'']
       \<and> (\<forall>g r. summarize_dictionary g = Inr r
             \<longrightarrow> (r = [] \<longleftrightarrow> (\<forall>p\<in>set paths. child g p = None)))
       \<and> (\<forall>name r. (\<forall>p\<in>set paths. lookup2 r p 65536 = None)
             \<longrightarrow> compact_row name r
                   = ljust 25 name @ '' '' @ ljust 12 ''-'' @ '' '' @ ljust 12 ''-''
                       @ '' '' @ ljust 12 ''-'')
       \<and> (\<forall>name g. summarize_dictionary g = Inr []
             \<longrightarrow> detailed_group name g
                   = ([CHR 0x0A # name, replicate 60 CHR ''-'', ''  No results yet''], Finished))"
proof (intro conjI allI impI)
  from assms(2) obtain all where all: "collect (sorted_by_name entries) [] = Inr all"
    and out: "out = table_head @ table_rows (sorted_by_name all) @ [replicate 90 CHR ''-'']"
    by (auto split: sum.splits)
  have d: "distinct (map fst (sorted_by_name entries))"
    using assms(1) by (simp add: sorted_by_name_def distinct_map_sort_key)
  from collect_items [OF all d]
  have items: "all = concat (map (\<lambda>(n, g). group_results n g) (sorted_by_name entries))"
    by simp
  have "sorted (map fst (sorted_by_name entries))"
    by (simp add: sorted_by_name_def)
  from sorted_groups [OF this] items have "sorted (map fst all)" by simp
  then have "sorted_by_name all = all"
    by (simp add: sorted_by_name_def sort_key_id_if_sorted)
  with out items table_rows_groups [of "sorted_by_name entries"]
  show "out = table_head
                 @ concat (map (\<lambda>(name, g). group_rows name g) (sorted_by_name entries))
                 @ [replicate 90 CHR ''-'']"
    by simp
next
  fix g r assume "summarize_dictionary g = Inr r"
  then show "r = [] \<longleftrightarrow> (\<forall>p\<in>set paths. child g p = None)" by (rule summarize_empty_iff)
next
  fix name r assume "\<forall>p\<in>set paths. lookup2 r p 65536 = None"
  then show "compact_row name r
                   = ljust 25 name @ '' '' @ ljust 12 ''-'' @ '' '' @ ljust 12 ''-''
                       @ '' '' @ ljust 12 ''-''"
    by (rule compact_row_all_dashes)
next
  fix name g assume "summarize_dictionary g = Inr []"
  then show "detailed_group name g
                   = ([CHR 0x0A # name, replicate 60 CHR ''-'', ''  No results yet''], Finished)"
    by (simp add: detailed_group_def emit_def)
qed

theorem compact_table_rows_witness:
  "distinct (map fst [(''zeta'', Dir [(''LUT'', Dir [])]), (''alpha'', Dir [])])
   \<and> print_full_table (Some (Dir [(''zeta'', Dir [(''LUT'', Dir [])]), (''alpha'', Dir [])]))
       = (table_head
            @ [''zeta                      -            -            -           '',
               replicate 90 CHR ''-''], Finished)
   \<and> concat (map (\<lambda>(name, g). group_rows name g)
         (sorted_by_name [(''zeta'', Dir [(''LUT'', Dir [])]), (''alpha'', Dir [])]))
       = [''zeta                      -            -            -           '']"
proof -
  have d: "distinct (map fst [(''zeta'', Dir [(''LUT'', Dir [])]), (''alpha'', Dir [])])"
    by simp
  have h: "print_full_table (Some (Dir [(''zeta'', Dir [(''LUT'', Dir [])]), (''alpha'', Dir [])]))
       = (table_head
            @ [''zeta                      -            -            -           '',
               replicate 90 CHR ''-''], Finished)"
    by (simp add: fs_eval sorted_by_name_def compact_row_def ljust_def replicate_numeral)
  from compact_table_rows [OF d h] d h show ?thesis by simp
qed

end
